theory Spec2Isabelle
  imports Complex_Main
begin

section \<open>Common: Python exceptions as values\<close>

text \<open>
  A Python call either returns a value or raises. A function of the model that can raise
  returns \<open>error + 'a\<close>, with \<open>Inl\<close> carrying the exception.
\<close>

datatype error =
    RuntimeError string
  | ValueError string
  | JSONDecodeError string
  | KeyError string
  | TypeError string
  | AttributeError string
  | OverflowError string
  | OtherException string

text \<open>\<open>str(e)\<close>: the message an exception carries.\<close>

fun error_text :: "error \<Rightarrow> string" where
  "error_text (RuntimeError m) = m"
| "error_text (ValueError m) = m"
| "error_text (JSONDecodeError m) = m"
| "error_text (KeyError m) = m"
| "error_text (TypeError m) = m"
| "error_text (AttributeError m) = m"
| "error_text (OverflowError m) = m"
| "error_text (OtherException m) = m"

text \<open>
  Sequencing of calls that can raise: the first exception ends the computation.
\<close>

definition and_then :: "error + 'a \<Rightarrow> ('a \<Rightarrow> error + 'b) \<Rightarrow> error + 'b" where
  "and_then m f = (case m of Inl e \<Rightarrow> Inl e | Inr x \<Rightarrow> f x)"

section \<open>Orchestrator state machine (mdap\_cli/orchestrator/state.py)\<close>

datatype PipelineState =
    IDLE | EXPANDING | DECOMPOSING | GENERATING | VALIDATING
  | PAUSED | AWAITING_DECISION | COMPLETED | ERROR

text \<open>The dictionary \<open>VALID_TRANSITIONS\<close>: every state is a key.\<close>

fun VALID_TRANSITIONS :: "PipelineState \<Rightarrow> PipelineState set option" where
  "VALID_TRANSITIONS IDLE = Some {EXPANDING}"
| "VALID_TRANSITIONS EXPANDING = Some {DECOMPOSING, PAUSED, ERROR, AWAITING_DECISION}"
| "VALID_TRANSITIONS DECOMPOSING = Some {GENERATING, PAUSED, ERROR, AWAITING_DECISION}"
| "VALID_TRANSITIONS GENERATING =
     Some {VALIDATING, COMPLETED, PAUSED, ERROR, AWAITING_DECISION}"
| "VALID_TRANSITIONS VALIDATING =
     Some {COMPLETED, GENERATING, PAUSED, ERROR, AWAITING_DECISION}"
| "VALID_TRANSITIONS PAUSED = Some {EXPANDING, DECOMPOSING, GENERATING, VALIDATING, IDLE}"
| "VALID_TRANSITIONS AWAITING_DECISION =
     Some {EXPANDING, DECOMPOSING, GENERATING, VALIDATING, PAUSED, IDLE}"
| "VALID_TRANSITIONS COMPLETED = Some {IDLE}"
| "VALID_TRANSITIONS ERROR = Some {IDLE}"

fun PipelineState_value :: "PipelineState \<Rightarrow> string" where
  "PipelineState_value IDLE = ''idle''"
| "PipelineState_value EXPANDING = ''expanding''"
| "PipelineState_value DECOMPOSING = ''decomposing''"
| "PipelineState_value GENERATING = ''generating''"
| "PipelineState_value VALIDATING = ''validating''"
| "PipelineState_value PAUSED = ''paused''"
| "PipelineState_value AWAITING_DECISION = ''awaiting''"
| "PipelineState_value COMPLETED = ''completed''"
| "PipelineState_value ERROR = ''error''"

text \<open>Membership of a pair \<open>(from, to)\<close> in the transition table.\<close>

definition in_table :: "PipelineState \<Rightarrow> PipelineState \<Rightarrow> bool" where
  "in_table a b = (case VALID_TRANSITIONS a of None \<Rightarrow> False | Some v \<Rightarrow> b \<in> v)"

definition EXECUTION_PHASES :: "PipelineState set" where
  "EXECUTION_PHASES = {EXPANDING, DECOMPOSING, GENERATING, VALIDATING}"

text \<open>
  Readings of the wall clock (\<open>datetime.now()\<close>) are natural numbers supplied by the
  caller. \<open>transition\<close> reads the clock twice: once for the history record and once
  for the \<open>started_at\<close>/\<open>completed_at\<close> stamp.
\<close>

type_synonym clock = "nat \<times> nat"

record StateTransition =
  from_state :: PipelineState
  to_state :: PipelineState
  reason :: string
  timestamp :: nat

record OrchestratorState =
  current :: PipelineState
  previous :: "PipelineState option"
  task :: string
  current_phase_detail :: string
  transition_history :: "StateTransition list"
  error_message :: "string option"
  started_at :: "nat option"
  completed_at :: "nat option"

text \<open>The dataclass defaults: \<open>OrchestratorState()\<close>.\<close>

definition OrchestratorState_init :: OrchestratorState where
  "OrchestratorState_init =
     \<lparr>current = IDLE, previous = None, task = [], current_phase_detail = [],
      transition_history = [], error_message = None, started_at = None,
      completed_at = None\<rparr>"

definition can_transition :: "OrchestratorState \<Rightarrow> PipelineState \<Rightarrow> bool" where
  "can_transition s to =
     (let valid = (case VALID_TRANSITIONS (current s) of None \<Rightarrow> {} | Some v \<Rightarrow> v)
      in to \<in> valid)"

text \<open>
  \<open>transition\<close> mutates the state object and returns a truth value; the model returns
  the pair of both. No statement of the method raises, so every branch is \<open>Inr\<close>.
\<close>

definition transition ::
  "OrchestratorState \<Rightarrow> PipelineState \<Rightarrow> string \<Rightarrow> clock \<Rightarrow> error + (bool \<times> OrchestratorState)"
where
  "transition s to why clk =
     (if \<not> can_transition s to then Inr (False, s)
      else
        let rec = \<lparr>from_state = current s, to_state = to, reason = why,
                   timestamp = fst clk\<rparr>;
            s1 = s\<lparr>transition_history := transition_history s @ [rec]\<rparr>;
            s2 = (if to = PAUSED then s1\<lparr>previous := Some (current s1)\<rparr> else s1);
            s3 = (if to \<in> EXECUTION_PHASES \<and> started_at s2 = None
                  then s2\<lparr>started_at := Some (snd clk)\<rparr>
                  else if to = COMPLETED then s2\<lparr>completed_at := Some (snd clk)\<rparr>
                  else s2)
        in Inr (True, s3\<lparr>current := to\<rparr>))"

text \<open>Every recorded transition has its pair in the table.\<close>

definition history_in_table :: "OrchestratorState \<Rightarrow> bool" where
  "history_in_table s =
     list_all (\<lambda>r. in_table (from_state r) (to_state r)) (transition_history s)"

definition get_resume_state :: "OrchestratorState \<Rightarrow> PipelineState option" where
  "get_resume_state s = (if current s \<noteq> PAUSED then None else previous s)"

definition is_running :: "OrchestratorState \<Rightarrow> bool" where
  "is_running s = (current s \<in> EXECUTION_PHASES)"

definition is_pausable :: "OrchestratorState \<Rightarrow> bool" where
  "is_pausable s = (current s \<in> EXECUTION_PHASES \<or> current s = AWAITING_DECISION)"

definition reset :: "OrchestratorState \<Rightarrow> OrchestratorState" where
  "reset s = s\<lparr>current := IDLE, previous := None, task := [], current_phase_detail := [],
               error_message := None, started_at := None, completed_at := None\<rparr>"

fun get_phase_name :: "PipelineState \<Rightarrow> string" where
  "get_phase_name IDLE = ''Aguardando''"
| "get_phase_name EXPANDING = ''Expandindo Requisitos''"
| "get_phase_name DECOMPOSING = ''Decompondo Fun'' @ [CHR 0xE7, CHR 0xF5] @ ''es''"
| "get_phase_name GENERATING = ''Gerando C'' @ [CHR 0xF3] @ ''digo''"
| "get_phase_name VALIDATING = ''Validando''"
| "get_phase_name PAUSED = ''Pausado''"
| "get_phase_name AWAITING_DECISION = ''Aguardando Decis'' @ [CHR 0xE3] @ ''o''"
| "get_phase_name COMPLETED = ''Conclu'' @ [CHR 0xED] @ ''do''"
| "get_phase_name ERROR = ''Erro''"

section \<open>Orchestrator (mdap\_cli/orchestrator/orchestrator.py)\<close>

record OrchestratorResult =
  res_task :: string
  res_requirements :: "string list"
  res_functions :: "string list"
  res_code :: "(string \<times> string) list"
  validation_passed :: bool
  res_error :: "string option"
  elapsed_seconds :: real
  decisions_made :: int

text \<open>\<open>OrchestratorResult(task=t)\<close>: every other field takes its default.\<close>

definition OrchestratorResult_new :: "string \<Rightarrow> OrchestratorResult" where
  "OrchestratorResult_new t =
     \<lparr>res_task = t, res_requirements = [], res_functions = [], res_code = [],
      validation_passed = False, res_error = None, elapsed_seconds = 0,
      decisions_made = 0\<rparr>"

text \<open>
  Events handed to the global bus. The bus catches whatever a subscriber raises, so
  emitting is modelled as appending to the list of emitted events.
\<close>

datatype Event =
    ORCHESTRATOR_STATE_CHANGE PipelineState string string string
  | ORCHESTRATOR_INTERRUPT string

record MDAPOrchestrator =
  state :: OrchestratorState
  result :: OrchestratorResult
  emitted :: "Event list"

definition emit_state_change :: "MDAPOrchestrator \<Rightarrow> string \<Rightarrow> MDAPOrchestrator" where
  "emit_state_change orch why =
     orch\<lparr>emitted := emitted orch @
        [ORCHESTRATOR_STATE_CHANGE (current (state orch))
           (get_phase_name (current (state orch))) why (task (state orch))]\<rparr>"

definition pause :: "MDAPOrchestrator \<Rightarrow> clock \<Rightarrow> error + (bool \<times> MDAPOrchestrator)" where
  "pause orch clk =
     (if \<not> is_pausable (state orch) then Inr (False, orch)
      else case transition (state orch) PAUSED (''Pausado pelo usu'' @ [CHR 0xE1] @ ''rio'') clk of
             Inl e \<Rightarrow> Inl e
           | Inr (_, s') \<Rightarrow>
               let o1 = emit_state_change (orch\<lparr>state := s'\<rparr>) ''Pipeline pausado'';
                   o2 = o1\<lparr>emitted := emitted o1 @ [ORCHESTRATOR_INTERRUPT ''pause'']\<rparr>
               in Inr (True, o2))"

definition resume :: "MDAPOrchestrator \<Rightarrow> clock \<Rightarrow> error + (bool \<times> MDAPOrchestrator)" where
  "resume orch clk =
     (case get_resume_state (state orch) of
        None \<Rightarrow> Inr (False, orch)
      | Some resume_state \<Rightarrow>
          (case transition (state orch) resume_state
                  (''Retomando execu'' @ [CHR 0xE7, CHR 0xE3] @ ''o'') clk of
             Inl e \<Rightarrow> Inl e
           | Inr (_, s') \<Rightarrow>
               Inr (True, emit_state_change (orch\<lparr>state := s'\<rparr>)
                          (''Retomando para '' @ PipelineState_value resume_state))))"

definition cancel :: "MDAPOrchestrator \<Rightarrow> clock \<Rightarrow> error + (bool \<times> MDAPOrchestrator)" where
  "cancel orch clk =
     (if current (state orch) = IDLE then Inr (False, orch)
      else case transition (state orch) IDLE (''Cancelado pelo usu'' @ [CHR 0xE1] @ ''rio'') clk of
             Inl e \<Rightarrow> Inl e
           | Inr (_, s') \<Rightarrow>
               Inr (True, emit_state_change (orch\<lparr>state := s'\<rparr>) ''Pipeline cancelado''))"

text \<open>
  The opening of \<open>start_task\<close>, up to the point where the first phase is entered: the
  guard, the reset of the state, the fresh result and the start event.
\<close>

definition start_task_begin :: "MDAPOrchestrator \<Rightarrow> string \<Rightarrow> error + MDAPOrchestrator" where
  "start_task_begin orch t =
     (if is_running (state orch)
      then Inl (RuntimeError (''Pipeline j'' @ [CHR 0xE1] @ '' est'' @ [CHR 0xE1] @
             '' em execu'' @ [CHR 0xE7, CHR 0xE3] @ ''o. Use /pause ou /cancel primeiro.''))
      else
        let s1 = (reset (state orch))\<lparr>task := t\<rparr>;
            o1 = orch\<lparr>state := s1, result := OrchestratorResult_new t\<rparr>
        in Inr (emit_state_change o1 ''Iniciando pipeline''))"

text \<open>
  A sample orchestrator in the middle of a task: it is in state \<open>p\<close> and its result
  already holds a requirement of the task \<open>''old''\<close>.
\<close>

definition orch_at :: "PipelineState \<Rightarrow> MDAPOrchestrator" where
  "orch_at p =
     \<lparr>state = OrchestratorState_init\<lparr>current := p, task := ''old'', started_at := Some 0\<rparr>,
      result = (OrchestratorResult_new ''old'')\<lparr>res_requirements := [''r1'']\<rparr>,
      emitted = []\<rparr>"

section \<open>Python strings\<close>

text \<open>
  A Python \<open>str\<close> is modelled as a \<open>string\<close> whose characters are the code points
  below 256 (Latin-1). \<open>py_isspace\<close> is \<open>str.isspace\<close> on one such character, which
  is also what \<open>\s\<close> matches in a \<open>str\<close> pattern.
\<close>

definition py_isspace :: "char \<Rightarrow> bool" where
  "py_isspace c =
     (let n = (of_char c :: nat)
      in (9 \<le> n \<and> n \<le> 13) \<or> (28 \<le> n \<and> n \<le> 32) \<or> n = 133 \<or> n = 160)"

definition lstrip :: "string \<Rightarrow> string" where
  "lstrip s = dropWhile py_isspace s"

definition rstrip :: "string \<Rightarrow> string" where
  "rstrip s = rev (dropWhile py_isspace (rev s))"

definition strip :: "string \<Rightarrow> string" where
  "strip s = lstrip (rstrip s)"

text \<open>
  Case mapping: a Latin-1 letter and its other case differ in the bit of weight 32, which
  is the sixth argument of \<open>Char\<close>. The lower-case sharp s (223) has the upper case
  \<open>SS\<close>; the upper-case forms of the characters 181 and 255 lie outside Latin-1, and
  those two characters are kept.
\<close>

definition py_lower_char :: "char \<Rightarrow> char" where
  "py_lower_char c =
     (let n = (of_char c :: nat)
      in if (65 \<le> n \<and> n \<le> 90) \<or> (192 \<le> n \<and> n \<le> 222 \<and> n \<noteq> 215)
         then (case c of Char b0 b1 b2 b3 b4 b5 b6 b7 \<Rightarrow> Char b0 b1 b2 b3 b4 True b6 b7)
         else c)"

definition py_upper_char :: "char \<Rightarrow> string" where
  "py_upper_char c =
     (let n = (of_char c :: nat)
      in if (97 \<le> n \<and> n \<le> 122) \<or> (224 \<le> n \<and> n \<le> 254 \<and> n \<noteq> 247)
         then [case c of Char b0 b1 b2 b3 b4 b5 b6 b7 \<Rightarrow> Char b0 b1 b2 b3 b4 False b6 b7]
         else if n = 223 then ''SS''
         else [c])"

definition lower :: "string \<Rightarrow> string" where
  "lower s = map py_lower_char s"

definition upper :: "string \<Rightarrow> string" where
  "upper s = concat (map py_upper_char s)"

definition startswith :: "string \<Rightarrow> string \<Rightarrow> bool" where
  "startswith s p = (take (length p) s = p)"

definition endswith :: "string \<Rightarrow> string \<Rightarrow> bool" where
  "endswith s p = (length p \<le> length s \<and> drop (length s - length p) s = p)"

text \<open>\<open>p in s\<close> on strings: \<open>p\<close> occurs in \<open>s\<close> as a substring.\<close>

fun contains :: "string \<Rightarrow> string \<Rightarrow> bool" where
  "contains [] p = (p = [])"
| "contains (c # cs) p = (startswith (c # cs) p \<or> contains cs p)"

section \<open>Intent detector (mdap\_cli/orchestrator/intent.py)\<close>

datatype UserIntent =
    TASK_SIMPLE | TASK_COMPLEX | TASK_EXPLORE
  | META_STATUS | META_EXPLAIN | META_HELP
  | CONTROL_PAUSE | CONTROL_RESUME | CONTROL_CANCEL
  | CHAT_GREETING | CHAT_GENERAL | CHAT_QUESTION

text \<open>
  A Python \<open>float\<close> is a double: a finite one is the rational number it denotes exactly,
  and there are the two infinities and the NaN. Nothing below does arithmetic on floats.
  The literals \<open>0.5\<close> and \<open>0.25\<close> are the doubles \<open>1/2\<close> and \<open>1/4\<close>; the
  literals \<open>0.7\<close>, \<open>0.85\<close> and \<open>0.9\<close> are the doubles
  \<open>3152519739159347 / 2^52\<close>, \<open>7656119366529843 / 2^53\<close> and
  \<open>8106479329266893 / 2^53\<close>.
\<close>

datatype pyfloat = Fin rat | PosInf | NegInf | NaN

text \<open>What \<open>json.loads\<close> returns: a Python object built from a JSON text.\<close>

datatype json =
    JNull
  | JBool bool
  | JInt int
  | JFloat pyfloat
  | JStr string
  | JList "json list"
  | JDict "(string \<times> json) list"

text \<open>
  The standard library is taken as a parameter: \<open>json.loads\<close>, and the conversions
  \<open>float(n)\<close> of an integer and \<open>float(s)\<close> of a string.
\<close>

record pylib =
  json_loads :: "string \<Rightarrow> error + json"
  float_of_int :: "int \<Rightarrow> error + pyfloat"
  float_of_str :: "string \<Rightarrow> error + pyfloat"

text \<open>
  The fields \<open>task\<close> and \<open>reasoning\<close> are annotated \<open>str\<close>, but \<open>_parse_response\<close>
  stores in them whatever value the reply holds under these keys.
\<close>

record IntentResult =
  intent :: UserIntent
  confidence :: pyfloat
  ir_task :: json
  reasoning :: json

text \<open>Python truthiness of a value (\<open>if task\<close>, \<open>if not self.reasoning\<close>).\<close>

fun truthy :: "json \<Rightarrow> bool" where
  "truthy JNull = False"
| "truthy (JBool b) = b"
| "truthy (JInt n) = (n \<noteq> 0)"
| "truthy (JFloat f) = (f \<noteq> Fin 0)"
| "truthy (JStr s) = (s \<noteq> [])"
| "truthy (JList xs) = (xs \<noteq> [])"
| "truthy (JDict kvs) = (kvs \<noteq> [])"

text \<open>\<open>type(v).__name__\<close>, as the messages of the interpreter's errors show it.\<close>

fun type_name :: "json \<Rightarrow> string" where
  "type_name JNull = ''NoneType''"
| "type_name (JBool b) = ''bool''"
| "type_name (JInt n) = ''int''"
| "type_name (JFloat f) = ''float''"
| "type_name (JStr s) = ''str''"
| "type_name (JList xs) = ''list''"
| "type_name (JDict kvs) = ''dict''"

text \<open>The constructor with its \<open>__post_init__\<close>.\<close>

definition IntentResult_new :: "UserIntent \<Rightarrow> pyfloat \<Rightarrow> json \<Rightarrow> json \<Rightarrow> IntentResult" where
  "IntentResult_new i c t r =
     \<lparr>intent = i, confidence = c, ir_task = t,
      reasoning = (if \<not> truthy r then JStr [] else r)\<rparr>"

definition py_float :: "pylib \<Rightarrow> json \<Rightarrow> error + pyfloat" where
  "py_float lib v =
     (case v of
        JFloat f \<Rightarrow> Inr f
      | JInt n \<Rightarrow> float_of_int lib n
      | JBool b \<Rightarrow> Inr (Fin (if b then 1 else 0))
      | JStr s \<Rightarrow> float_of_str lib s
      | _ \<Rightarrow> Inl (TypeError (''float() argument must be a string or a real number, not '' @
                          [CHR 0x27] @ type_name v @ [CHR 0x27])))"

text \<open>\<open>re.sub(r'^```(?:json)?\s*', '', s)\<close>\<close>

definition sub_leading_fence :: "string \<Rightarrow> string" where
  "sub_leading_fence s =
     (if startswith s ''```''
      then let r = drop 3 s;
               r' = (if startswith r ''json'' then drop 4 r else r)
           in dropWhile py_isspace r'
      else s)"

text \<open>
  \<open>re.sub(r'\s*```$', '', s)\<close>: \<open>$\<close> matches at the end of the string and before a
  newline that ends it.
\<close>

definition sub_trailing_fence :: "string \<Rightarrow> string" where
  "sub_trailing_fence s =
     (if endswith s ''```'' then rstrip (take (length s - 3) s)
      else if endswith s (''```'' @ [CHR 0x0A])
      then rstrip (take (length s - 4) s) @ [CHR 0x0A]
      else s)"

text \<open>
  \<open>re.search(r'\{[\s\S]*\}', s)\<close>: the text from the first opening brace to the last
  closing brace after it, if there is one.
\<close>

definition search_braces :: "string \<Rightarrow> string option" where
  "search_braces s =
     (let rest = dropWhile (\<lambda>c. c \<noteq> CHR ''{'') s;
          body = rev (dropWhile (\<lambda>c. c \<noteq> CHR ''}'') (rev rest))
      in if body = [] then None else Some body)"

fun intent_map :: "string \<Rightarrow> UserIntent option" where
  "intent_map s =
     (if s = ''TASK_SIMPLE'' then Some TASK_SIMPLE
      else if s = ''TASK_COMPLEX'' then Some TASK_COMPLEX
      else if s = ''TASK_EXPLORE'' then Some TASK_EXPLORE
      else if s = ''META_STATUS'' then Some META_STATUS
      else if s = ''META_EXPLAIN'' then Some META_EXPLAIN
      else if s = ''META_HELP'' then Some META_HELP
      else if s = ''CONTROL_PAUSE'' then Some CONTROL_PAUSE
      else if s = ''CONTROL_RESUME'' then Some CONTROL_RESUME
      else if s = ''CONTROL_CANCEL'' then Some CONTROL_CANCEL
      else if s = ''CHAT_GREETING'' then Some CHAT_GREETING
      else if s = ''CHAT_GENERAL'' then Some CHAT_GENERAL
      else if s = ''CHAT_QUESTION'' then Some CHAT_QUESTION
      else None)"

text \<open>\<open>d.get(k, default)\<close>; on anything but a dictionary the attribute is missing.\<close>

definition dict_get :: "json \<Rightarrow> string \<Rightarrow> json \<Rightarrow> error + json" where
  "dict_get data k dflt =
     (case data of
        JDict kvs \<Rightarrow> Inr (case map_of kvs k of None \<Rightarrow> dflt | Some v \<Rightarrow> v)
      | _ \<Rightarrow> Inl (AttributeError ([CHR 0x27] @ type_name data @ [CHR 0x27] @
                 '' object has no attribute '' @ [CHR 0x27] @ ''get'' @ [CHR 0x27])))"

definition str_upper :: "json \<Rightarrow> error + string" where
  "str_upper v =
     (case v of JStr s \<Rightarrow> Inr (upper s)
      | _ \<Rightarrow> Inl (AttributeError ([CHR 0x27] @ type_name v @ [CHR 0x27] @
                 '' object has no attribute '' @ [CHR 0x27] @ ''upper'' @ [CHR 0x27])))"

text \<open>
  The body of the \<open>try\<close> of \<open>_parse_response\<close>: \<open>Inr (Some r)\<close> is its \<open>return\<close>,
  \<open>Inr None\<close> is falling out of it because nothing matched, \<open>Inl e\<close> is an exception.
\<close>

definition parse_body :: "pylib \<Rightarrow> string \<Rightarrow> string \<Rightarrow> error + IntentResult option" where
  "parse_body lib response original_message =
     (let clean_response = sub_trailing_fence (sub_leading_fence (strip response))
      in case search_braces clean_response of
           None \<Rightarrow> Inr None
         | Some js \<Rightarrow>
             and_then (json_loads lib js) (\<lambda>data.
             and_then (dict_get data ''intent'' (JStr ''CHAT_GENERAL'')) (\<lambda>intent_v.
             and_then (str_upper intent_v) (\<lambda>intent_str.
             and_then (dict_get data ''confidence'' (JFloat (Fin (3152519739159347 / 4503599627370496)))) (\<lambda>conf_v.
             and_then (py_float lib conf_v) (\<lambda>conf.
             and_then (dict_get data ''task'' (JStr [])) (\<lambda>tsk.
             and_then (dict_get data ''reasoning'' (JStr [])) (\<lambda>reasoning_v.
               Inr (Some (IntentResult_new
                 (case intent_map intent_str of None \<Rightarrow> CHAT_GENERAL | Some i \<Rightarrow> i)
                 conf
                 (if truthy tsk then tsk else JStr original_message)
                 reasoning_v))))))))))"

text \<open>The exceptions named by the \<open>except\<close> clause of \<open>_parse_response\<close>.\<close>

fun parse_catches :: "error \<Rightarrow> bool" where
  "parse_catches (JSONDecodeError _) = True"
| "parse_catches (ValueError _) = True"
| "parse_catches (KeyError _) = True"
| "parse_catches _ = False"

definition parse_fallback :: IntentResult where
  "parse_fallback =
     IntentResult_new CHAT_GENERAL (Fin (1 / 2)) (JStr [])
       (JStr (''N'' @ [CHR 0xE3] @ ''o foi poss'' @ [CHR 0xED] @ ''vel classificar com precis'' @
              [CHR 0xE3] @ ''o''))"

definition parse_response :: "pylib \<Rightarrow> string \<Rightarrow> string \<Rightarrow> error + IntentResult" where
  "parse_response lib response original_message =
     (case parse_body lib response original_message of
        Inr (Some r) \<Rightarrow> Inr r
      | Inr None \<Rightarrow> Inr parse_fallback
      | Inl e \<Rightarrow> if parse_catches e then Inr parse_fallback else Inl e)"

definition any_in :: "string list \<Rightarrow> string \<Rightarrow> bool" where
  "any_in ps msg = list_ex (\<lambda>p. contains msg p) ps"

definition help_patterns :: "string list" where
  "help_patterns =
     [''o que voc'' @ [CHR 0xEA] @ '' faz'', ''o que vc faz'',
      ''o que voc'' @ [CHR 0xEA] @ '' pode'', ''o que vc pode'', ''capaz de fazer'',
      ''suas capacidades'', ''me ajuda'', ''ajuda'', ''help'', ''comandos'']"

definition complex_patterns :: "string list" where
  "complex_patterns =
     [''sistema'', ''projeto'', ''aplica'' @ [CHR 0xE7, CHR 0xE3] @ ''o'', ''aplicativo'',
      ''app'', ''completo'', ''backend'', ''frontend'', ''banco de dados'']"

definition task_verbs :: "string list" where
  "task_verbs = [''quero'', ''preciso'', ''criar'', ''fazer'', ''desenvolver'', ''construir'']"

definition simple_patterns :: "string list" where
  "simple_patterns =
     [''fun'' @ [CHR 0xE7, CHR 0xE3] @ ''o'', ''validador'', ''script'', ''hello world'']"

definition greetings :: "string list" where
  "greetings =
     [''oi'', ''ol'' @ [CHR 0xE1], ''ola'', ''bom dia'', ''boa tarde'', ''boa noite'',
      ''e a'' @ [CHR 0xED], ''eai'']"

definition detect_local :: "string \<Rightarrow> IntentResult option" where
  "detect_local message =
     (let msg = strip (lower message)
      in if any_in help_patterns msg
         then Some (IntentResult_new META_HELP (Fin (7656119366529843 / 9007199254740992)) (JStr [])
                (JStr ''Detectado localmente: pergunta sobre capacidades''))
         else if any_in complex_patterns msg \<and> any_in task_verbs msg
         then Some (IntentResult_new TASK_COMPLEX (Fin (7656119366529843 / 9007199254740992)) (JStr message)
                (JStr ''Detectado localmente: tarefa complexa''))
         else if any_in simple_patterns msg \<and> any_in task_verbs msg
         then Some (IntentResult_new TASK_SIMPLE (Fin (7656119366529843 / 9007199254740992)) (JStr message)
                (JStr ''Detectado localmente: tarefa simples''))
         else if msg \<in> set greetings \<or>
                 (length msg < 15 \<and> any_in greetings msg \<and> \<not> contains msg ''?'')
         then Some (IntentResult_new CHAT_GREETING (Fin (8106479329266893 / 9007199254740992)) (JStr [])
                (JStr (''Detectado localmente: sauda'' @ [CHR 0xE7, CHR 0xE3] @ ''o'')))
         else None)"

text \<open>
  \<open>detect\<close>: \<open>reply\<close> is the outcome of the call \<open>client.generate(prompt)\<close>, the reply
  text or the exception it raised.
\<close>

definition detect :: "pylib \<Rightarrow> error + string \<Rightarrow> string \<Rightarrow> IntentResult" where
  "detect lib reply message =
     (case (case reply of Inl e \<Rightarrow> Inl e
            | Inr response \<Rightarrow> parse_response lib response message) of
        Inr r \<Rightarrow>
          if confidence r = Fin (1 / 2) \<and> intent r = CHAT_GENERAL
          then (case detect_local message of Some l \<Rightarrow> l | None \<Rightarrow> r)
          else r
      | Inl e \<Rightarrow>
          (case detect_local message of
             Some l \<Rightarrow> l
           | None \<Rightarrow> IntentResult_new CHAT_GENERAL (Fin (1 / 2)) (JStr [])
                       (JStr (''Erro: '' @ error_text e))))"

text \<open>
  A stand-in for the standard library on one reply text: \<open>json.loads\<close> of
  \<open>{"intent": "TASK_SIMPLE", "confidence": 0.25}\<close> is the dictionary of its two
  entries; the double \<open>0.25\<close> is the rational \<open>1/4\<close>.
\<close>

definition sample_reply :: string where
  \<open>sample_reply = ''{"intent": "TASK_SIMPLE", "confidence": 0.25}''\<close>

definition sample_lib :: pylib where
  "sample_lib =
     \<lparr>json_loads = (\<lambda>s. if s = sample_reply
          then Inr (JDict [(''intent'', JStr ''TASK_SIMPLE''),
                           (''confidence'', JFloat (Fin (1 / 4)))])
          else Inl (JSONDecodeError ''Expecting value'')),
      float_of_int = (\<lambda>n. Inr (Fin (of_int n))),
      float_of_str = (\<lambda>s. Inl (ValueError ''could not convert string to float''))\<rparr>"

section \<open>Regular expressions as Python's \<open>re\<close> matches them\<close>

text \<open>
  A backtracking matcher: \<open>rx_match r s\<close> lists, in the order in which \<open>re\<close> tries
  them, the remainders of \<open>s\<close> after each way of matching \<open>r\<close> at its start. The
  greedy forms try the longer match first, the lazy star the shorter one first, and an
  alternation its branches from left to right. \<open>ILit c\<close> is the letter \<open>c\<close> (given in
  lower case) under \<open>re.IGNORECASE\<close>; \<open>Many\<close>, \<open>Many1\<close> and \<open>Few\<close> are \<open>*\<close>,
  \<open>+\<close> and \<open>*?\<close> applied to a character class.
\<close>

datatype rx =
    Eps
  | Lit char
  | ILit char
  | Seq rx rx
  | Alt rx rx
  | Opt rx
  | Many "char \<Rightarrow> bool"
  | Many1 "char \<Rightarrow> bool"
  | Few "char \<Rightarrow> bool"

fun many :: "(char \<Rightarrow> bool) \<Rightarrow> string \<Rightarrow> string list" where
  "many p [] = [[]]"
| "many p (x # xs) = (if p x then many p xs @ [x # xs] else [x # xs])"

fun few :: "(char \<Rightarrow> bool) \<Rightarrow> string \<Rightarrow> string list" where
  "few p [] = [[]]"
| "few p (x # xs) = (x # xs) # (if p x then few p xs else [])"

fun rx_match :: "rx \<Rightarrow> string \<Rightarrow> string list" where
  "rx_match Eps s = [s]"
| "rx_match (Lit c) s = (case s of [] \<Rightarrow> [] | x # xs \<Rightarrow> if x = c then [xs] else [])"
| "rx_match (ILit c) s =
     (case s of [] \<Rightarrow> [] | x # xs \<Rightarrow> if py_lower_char x = c then [xs] else [])"
| "rx_match (Seq a b) s = concat (map (rx_match b) (rx_match a s))"
| "rx_match (Alt a b) s = rx_match a s @ rx_match b s"
| "rx_match (Opt a) s = rx_match a s @ [s]"
| "rx_match (Many p) s = many p s"
| "rx_match (Many1 p) s = (case s of [] \<Rightarrow> [] | x # xs \<Rightarrow> if p x then many p xs else [])"
| "rx_match (Few p) s = few p s"

text \<open>A literal word, with and without \<open>re.IGNORECASE\<close>, and a sequence of patterns.\<close>

fun word :: "string \<Rightarrow> rx" where
  "word [] = Eps"
| "word [c] = Lit c"
| "word (c # cs) = Seq (Lit c) (word cs)"

fun iword :: "string \<Rightarrow> rx" where
  "iword [] = Eps"
| "iword [c] = ILit c"
| "iword (c # cs) = Seq (ILit c) (iword cs)"

fun seqs :: "rx list \<Rightarrow> rx" where
  "seqs [] = Eps"
| "seqs [r] = r"
| "seqs (r # rs) = Seq r (seqs rs)"

text \<open>\<open>re.match(r, s)\<close> finds a match at the start of \<open>s\<close>.\<close>

definition re_match :: "rx \<Rightarrow> string \<Rightarrow> bool" where
  "re_match r s = (rx_match r s \<noteq> [])"

section \<open>Decimal text of integers\<close>

text \<open>\<open>str(n)\<close> of an integer, as an f-string prints it.\<close>

function show_nat :: "nat \<Rightarrow> string" where
  "show_nat n =
     (if n < 10 then [''0123456789'' ! n]
      else show_nat (n div 10) @ [''0123456789'' ! (n mod 10)])"
  by pat_completeness auto
termination
  by (relation "measure id") auto

declare show_nat.simps [simp del]

definition show_int :: "int \<Rightarrow> string" where
  "show_int i = (if i < 0 then CHR ''-'' # show_nat (nat (- i)) else show_nat (nat i))"

section \<open>Shared types (mdap/types.py)\<close>

datatype Language = PYTHON | TYPESCRIPT

text \<open>
  A candidate. Its \<open>id\<close>, a random identifier used only by \<open>__eq__\<close> and
  \<open>__hash__\<close>, is left out: where identity matters a candidate is named by its
  address in the store.
\<close>

record Candidate =
  code :: string
  tokens_used :: int
  is_valid :: bool
  red_flag_reason :: "string option"
  group_id :: "string option"

text \<open>\<open>Candidate(code=c, tokens_used=t)\<close>\<close>

definition Candidate_new :: "string \<Rightarrow> int \<Rightarrow> Candidate" where
  "Candidate_new c t =
     \<lparr>code = c, tokens_used = t, is_valid = True, red_flag_reason = None, group_id = None\<rparr>"

text \<open>
  The configuration; the temperature, the model name and the two timeouts play no part in
  the filter, the discriminator or the voter and are left out.
\<close>

record MDAPConfig =
  cfg_k :: int
  cfg_max_samples :: int
  max_tokens_response :: int
  enable_syntax_check :: bool
  enable_length_check :: bool
  enable_format_check :: bool

definition MDAPConfig_default :: MDAPConfig where
  "MDAPConfig_default =
     \<lparr>cfg_k = 3, cfg_max_samples = 20, max_tokens_response = 500,
      enable_syntax_check = True, enable_length_check = True, enable_format_check = True\<rparr>"

section \<open>Red-flag filter (mdap/mdap/red\_flag.py)\<close>

record RedFlagResult =
  passed :: bool
  rf_reason :: "string option"
  checks :: "(string \<times> bool) list"

text \<open>
  \<open>ast.parse\<close> is Python's own parser and is taken as a parameter: it accepts the text,
  raises a \<open>SyntaxError\<close> with a message and a line number, or raises something else.
\<close>

datatype parse_outcome =
    ParseOk
  | ParseSyntaxError string "int option"
  | ParseOtherError string

type_synonym ast_parse = "string \<Rightarrow> parse_outcome"

definition check_length :: "MDAPConfig \<Rightarrow> Candidate \<Rightarrow> bool" where
  "check_length cfg cand = (tokens_used cand \<le> max_tokens_response cfg)"

text \<open>
  The four patterns of \<open>_check_format\<close>:
  \<^verbatim>\<open>^Here'?s?\s+(the|a|an)\s+\<close>, \<^verbatim>\<open>^I'?ll\s+\<close>,
  \<^verbatim>\<open>^This\s+(function|code|implementation)\<close>, \<^verbatim>\<open>^The\s+following\<close>,
  all under \<open>re.IGNORECASE\<close>.
\<close>

definition explanation_patterns :: "rx list" where
  "explanation_patterns =
     [seqs [iword ''here'', Opt (Lit (CHR 0x27)), Opt (ILit (CHR ''s'')), Many1 py_isspace,
            Alt (iword ''the'') (Alt (iword ''a'') (iword ''an'')), Many1 py_isspace],
      seqs [ILit (CHR ''i''), Opt (Lit (CHR 0x27)), iword ''ll'', Many1 py_isspace],
      seqs [iword ''this'', Many1 py_isspace,
            Alt (iword ''function'') (Alt (iword ''code'') (iword ''implementation''))],
      seqs [iword ''the'', Many1 py_isspace, iword ''following'']]"

definition check_format :: "Candidate \<Rightarrow> bool \<times> string option" where
  "check_format cand =
     (let c = strip (code cand)
      in if c = [] then (False, Some ''Empty code'')
         else if length c < 10 then (False, Some ''Code too short'')
         else if list_ex (\<lambda>pattern. re_match pattern c) explanation_patterns
         then (False, Some ''Contains explanation instead of code'')
         else (True, None))"

text \<open>
  \<open>_extract_code\<close>: \<open>re.findall\<close> of
  \<^verbatim>\<open>```(?:python|typescript|javascript|js|ts)?\n?(.*?)```\<close> under \<open>re.DOTALL\<close>,
  of which only the first match is used. \<open>fence_at s\<close> is the group of a match that
  starts at the beginning of \<open>s\<close>: the first, in the order of backtracking, of the ways
  to match the opening and then the lazy group that is followed by the closing fence.
\<close>

definition fence_open :: rx where
  "fence_open =
     seqs [word ''```'',
           Opt (Alt (word ''python'') (Alt (word ''typescript'') (Alt (word ''javascript'')
                (Alt (word ''js'') (word ''ts''))))),
           Opt (Lit (CHR 0x0A))]"

definition fence_at :: "string \<Rightarrow> string option" where
  "fence_at s =
     (case concat (map (\<lambda>r1. map (\<lambda>r2. take (length r1 - length r2) r1)
                              (filter (\<lambda>r2. startswith r2 ''```'') (few (\<lambda>c. True) r1)))
                       (rx_match fence_open s)) of
        [] \<Rightarrow> None
      | g # _ \<Rightarrow> Some g)"

fun first_fence :: "string \<Rightarrow> string option" where
  "first_fence [] = fence_at []"
| "first_fence (c # cs) =
     (case fence_at (c # cs) of Some g \<Rightarrow> Some g | None \<Rightarrow> first_fence cs)"

definition extract_code :: "string \<Rightarrow> string" where
  "extract_code text =
     (case first_fence text of Some g \<Rightarrow> strip g | None \<Rightarrow> strip text)"



definition check_python_syntax :: "ast_parse \<Rightarrow> string \<Rightarrow> bool \<times> string option" where
  "check_python_syntax parse c =
     (case parse c of
        ParseOk \<Rightarrow> (True, None)
      | ParseSyntaxError msg lineno \<Rightarrow>
          (False, Some (''Python syntax error: '' @ msg @ '' at line '' @
             (case lineno of None \<Rightarrow> ''None'' | Some n \<Rightarrow> show_int n)))
      | ParseOtherError msg \<Rightarrow> (False, Some (''Python parse error: '' @ msg)))"

text \<open>The dictionary \<open>brackets\<close>, and \<open>repr\<close> of a list of closing brackets.\<close>

definition brackets :: "char \<Rightarrow> char option" where
  "brackets c =
     (if c = CHR ''{'' then Some (CHR ''}'')
      else if c = CHR ''['' then Some (CHR '']'')
      else if c = CHR ''('' then Some (CHR '')'')
      else None)"

definition is_closer :: "char \<Rightarrow> bool" where
  "is_closer c = (c = CHR ''}'' \<or> c = CHR '']'' \<or> c = CHR '')'')"

fun repr_items :: "char list \<Rightarrow> string" where
  "repr_items [] = []"
| "repr_items [c] = [CHR 0x27, c, CHR 0x27]"
| "repr_items (c # cs) = [CHR 0x27, c, CHR 0x27] @ '', '' @ repr_items cs"

definition repr_list :: "char list \<Rightarrow> string" where
  "repr_list st = ''['' @ repr_items st @ '']''"

text \<open>
  The loop of \<open>_check_typescript_syntax\<close> over the characters, with its three
  variables: the stack (top at the end, as \<open>append\<close> and \<open>pop\<close> use it),
  \<open>in_string\<close> and \<open>string_char\<close>.
\<close>

fun ts_scan :: "string \<Rightarrow> char list \<Rightarrow> bool \<Rightarrow> char option \<Rightarrow> bool \<times> string option" where
  "ts_scan [] stack in_string string_char =
     (if stack \<noteq> [] then (False, Some (''Unclosed brackets: '' @ repr_list stack))
      else (True, None))"
| "ts_scan (c # cs) stack in_string string_char =
     (if (c = CHR 0x22 \<or> c = CHR 0x27 \<or> c = CHR 0x60) \<and> \<not> in_string
      then ts_scan cs stack True (Some c)
      else if Some c = string_char \<and> in_string
      then ts_scan cs stack False None
      else if \<not> in_string
      then (case brackets c of
              Some closing \<Rightarrow> ts_scan cs (stack @ [closing]) in_string string_char
            | None \<Rightarrow>
                if is_closer c
                then (if stack = [] \<or> last stack \<noteq> c
                      then (False, Some (''Unbalanced brackets at '' @ [CHR 0x27, c, CHR 0x27]))
                      else ts_scan cs (butlast stack) in_string string_char)
                else ts_scan cs stack in_string string_char)
      else ts_scan cs stack in_string string_char)"

definition check_typescript_syntax :: "string \<Rightarrow> bool \<times> string option" where
  "check_typescript_syntax c = ts_scan c [] False None"

definition check_syntax :: "ast_parse \<Rightarrow> Candidate \<Rightarrow> Language \<Rightarrow> bool \<times> string option" where
  "check_syntax parse cand language =
     (let c = extract_code (code cand)
      in case language of
           PYTHON \<Rightarrow> check_python_syntax parse c
         | TYPESCRIPT \<Rightarrow> check_typescript_syntax c)"

definition too_long_reason :: "MDAPConfig \<Rightarrow> Candidate \<Rightarrow> string" where
  "too_long_reason cfg cand =
     ''Response too long ('' @ show_int (tokens_used cand) @ '' tokens > '' @
       show_int (max_tokens_response cfg) @ '')''"

text \<open>\<open>checks[name] = value\<close> on the dictionary of the checks made.\<close>

definition set_check :: "(string \<times> bool) list \<Rightarrow> string \<Rightarrow> bool \<Rightarrow> (string \<times> bool) list" where
  "set_check cs name v =
     (if name \<in> fst ` set cs then map (\<lambda>(n, b). if n = name then (n, v) else (n, b)) cs
      else cs @ [(name, v)])"

definition check :: "MDAPConfig \<Rightarrow> ast_parse \<Rightarrow> Candidate \<Rightarrow> Language \<Rightarrow> RedFlagResult" where
  "check cfg parse cand language =
     (let checks0 = [];
          length_ok = check_length cfg cand;
          checks1 = (if enable_length_check cfg then set_check checks0 ''length'' length_ok
                     else checks0)
      in if enable_length_check cfg \<and> \<not> length_ok
         then \<lparr>passed = False, rf_reason = Some (too_long_reason cfg cand), checks = checks1\<rparr>
         else
           let (format_ok, format_reason) = check_format cand;
               checks2 = (if enable_format_check cfg then set_check checks1 ''format'' format_ok
                          else checks1)
           in if enable_format_check cfg \<and> \<not> format_ok
              then \<lparr>passed = False, rf_reason = format_reason, checks = checks2\<rparr>
              else
                let (syntax_ok, syntax_reason) = check_syntax parse cand language;
                    checks3 = (if enable_syntax_check cfg
                               then set_check checks2 ''syntax'' syntax_ok else checks2)
                in if enable_syntax_check cfg \<and> \<not> syntax_ok
                   then \<lparr>passed = False, rf_reason = syntax_reason, checks = checks3\<rparr>
                   else \<lparr>passed = True, rf_reason = None, checks = checks3\<rparr>)"








definition parse_accepts :: ast_parse where
  "parse_accepts = (\<lambda>s. ParseOk)"







section \<open>Python dictionaries and sorting\<close>

text \<open>
  A \<open>dict\<close> keeps its keys in insertion order: assigning to a key that is present
  replaces the value in place, assigning to a new key appends the entry.
\<close>

fun dict_set :: "('k \<times> 'v) list \<Rightarrow> 'k \<Rightarrow> 'v \<Rightarrow> ('k \<times> 'v) list" where
  "dict_set [] k v = [(k, v)]"
| "dict_set ((k', v') # kvs) k v =
     (if k' = k then (k, v) # kvs else (k', v') # dict_set kvs k v)"

text \<open>
  \<open>sorted(xs, key=f, reverse=True)\<close>: descending by key, elements with equal keys
  staying in their original order.
\<close>

definition sorted_desc :: "('a \<Rightarrow> int) \<Rightarrow> 'a list \<Rightarrow> 'a list" where
  "sorted_desc f xs = sort_key (\<lambda>x. - f x) xs"

text \<open>\<open>a or b\<close> on an optional integer: \<open>None\<close> and \<open>0\<close> are false.\<close>

definition py_or :: "int option \<Rightarrow> int \<Rightarrow> int" where
  "py_or a b = (case a of None \<Rightarrow> b | Some x \<Rightarrow> if x = 0 then b else x)"

section \<open>Discriminator (mdap/mdap/discriminator.py)\<close>

text \<open>
  Candidates are objects shared between the session's lists and the groups, and they are
  mutated after they have been stored. The model keeps them in a store, a list indexed
  by address; the lists of the session and of the groups hold addresses.
\<close>

type_synonym addr = nat

record SemanticGroup =
  sg_id :: string
  representative :: addr
  members :: "addr list"

definition votes :: "SemanticGroup \<Rightarrow> int" where
  "votes g = int (length (members g))"

text \<open>
  The language model is outside the program. Its state is a value of an arbitrary type
  \<open>'w\<close>; a call takes the state and returns the outcome, a value or an exception, with
  the next state, so that it may answer differently each time it is asked.
\<close>

type_synonym 'w compare_semantic =
  "'w \<Rightarrow> string \<Rightarrow> string \<Rightarrow> string \<Rightarrow> (error + bool) \<times> 'w"

text \<open>
  The state the discriminator works on: the store of candidates, the language model, the
  dictionary of groups and the comparison cache.
\<close>

record 'w dstate =
  heap :: "Candidate list"
  world :: 'w
  groups :: "(string \<times> SemanticGroup) list"
  comparison_cache :: "string \<times> string \<Rightarrow> bool option"

definition cache_key :: "string \<Rightarrow> string \<Rightarrow> string \<times> string" where
  "cache_key code_a code_b = (strip code_a, strip code_b)"

definition compare ::
  "'w compare_semantic \<Rightarrow> 'w dstate \<Rightarrow> string \<Rightarrow> string \<Rightarrow> string \<Rightarrow> (error + bool) \<times> 'w dstate"
where
  "compare cs s code_a code_b ctx =
     (let key = cache_key code_a code_b
      in case comparison_cache s key of
           Some r \<Rightarrow> (Inr r, s)
         | None \<Rightarrow>
             (case cs (world s) code_a code_b ctx of
                (Inl e, w') \<Rightarrow> (Inl e, s\<lparr>world := w'\<rparr>)
              | (Inr r, w') \<Rightarrow>
                  (Inr r, s\<lparr>world := w',
                     comparison_cache :=
                       ((comparison_cache s)(key \<mapsto> r))(cache_key code_b code_a \<mapsto> r)\<rparr>)))"

text \<open>
  The loop of \<open>find_group\<close> over \<open>self.groups.values()\<close>. The group found is named by
  its position \<open>i\<close> in the dictionary.
\<close>

fun find_group_in ::
  "'w compare_semantic \<Rightarrow> string \<Rightarrow> string \<Rightarrow> nat \<Rightarrow> SemanticGroup list \<Rightarrow> 'w dstate \<Rightarrow>
     (error + nat option) \<times> 'w dstate"
where
  "find_group_in cs ctx c i [] s = (Inr None, s)"
| "find_group_in cs ctx c i (g # gs) s =
     (case compare cs s c (code (heap s ! representative g)) ctx of
        (Inl e, s') \<Rightarrow> (Inl e, s')
      | (Inr True, s') \<Rightarrow> (Inr (Some i), s')
      | (Inr False, s') \<Rightarrow> find_group_in cs ctx c (Suc i) gs s')"

definition find_group ::
  "'w compare_semantic \<Rightarrow> 'w dstate \<Rightarrow> addr \<Rightarrow> string \<Rightarrow> (error + nat option) \<times> 'w dstate"
where
  "find_group cs s candidate ctx =
     find_group_in cs ctx (code (heap s ! candidate)) 0 (map snd (groups s)) s"

text \<open>\<open>candidate.group_id = gid\<close> on the object at an address.\<close>

definition set_group_id :: "Candidate list \<Rightarrow> addr \<Rightarrow> string \<Rightarrow> Candidate list" where
  "set_group_id h a gid = h[a := (h ! a)\<lparr>group_id := Some gid\<rparr>]"

definition classify ::
  "'w compare_semantic \<Rightarrow> 'w dstate \<Rightarrow> addr \<Rightarrow> string \<Rightarrow> (error + SemanticGroup) \<times> 'w dstate"
where
  "classify cs s candidate ctx =
     (case find_group cs s candidate ctx of
        (Inl e, s') \<Rightarrow> (Inl e, s')
      | (Inr (Some i), s') \<Rightarrow>
          (let (key, g) = groups s' ! i;
               g' = g\<lparr>members := members g @ [candidate]\<rparr>
           in (Inr g', s'\<lparr>heap := set_group_id (heap s') candidate (sg_id g),
                          groups := (groups s')[i := (key, g')]\<rparr>))
      | (Inr None, s') \<Rightarrow>
          (let gid = ''group_'' @ show_nat (length (groups s'));
               g = \<lparr>sg_id = gid, representative = candidate, members = [candidate]\<rparr>
           in (Inr g, s'\<lparr>heap := set_group_id (heap s') candidate gid,
                         groups := dict_set (groups s') gid g\<rparr>)))"

definition get_winner :: "'w dstate \<Rightarrow> int \<Rightarrow> SemanticGroup option" where
  "get_winner s k =
     (if groups s = [] then None
      else case sorted_desc votes (map snd (groups s)) of
             [] \<Rightarrow> None
           | leader # rest \<Rightarrow>
               (let runner_up_votes = (case rest of [] \<Rightarrow> 0 | r # _ \<Rightarrow> votes r)
                in if votes leader - runner_up_votes \<ge> k then Some leader else None))"

text \<open>
  The comparisons of a candidate's code with the representatives of the groups \<open>gs\<close>, one
  after the other, all answering no: \<open>rejected_by\<close> gives the state they leave, and
  \<open>None\<close> when one of them answers yes or raises.
\<close>

fun rejected_by ::
  "'w compare_semantic \<Rightarrow> string \<Rightarrow> string \<Rightarrow> SemanticGroup list \<Rightarrow> 'w dstate \<Rightarrow> 'w dstate option"
where
  "rejected_by cs ctx c [] s = Some s"
| "rejected_by cs ctx c (g # gs) s =
     (case compare cs s c (code (heap s ! representative g)) ctx of
        (Inr False, s') \<Rightarrow> rejected_by cs ctx c gs s'
      | _ \<Rightarrow> None)"

text \<open>
  The dictionaries of groups that \<open>classify\<close> builds from the empty one: the key at
  position \<open>i\<close> is \<open>group_i\<close>, and each group is stored under its own identifier.
\<close>

definition numbered :: "(string \<times> SemanticGroup) list \<Rightarrow> bool" where
  "numbered gs =
     (map fst gs = map (\<lambda>i. ''group_'' @ show_nat i) [0..<length gs] \<and>
      list_all (\<lambda>(key, g). sg_id g = key) gs)"

text \<open>
  Sample language models, whose state counts the calls made: one that answers yes to
  every comparison, one that answers no, and one that answers yes when the two texts are
  equal up to surrounding white space.
\<close>

definition cmp_yes :: "nat compare_semantic" where
  "cmp_yes w a b ctx = (Inr True, Suc w)"

definition cmp_no :: "nat compare_semantic" where
  "cmp_no w a b ctx = (Inr False, Suc w)"

definition cmp_same :: "nat compare_semantic" where
  "cmp_same w a b ctx = (Inr (strip a = strip b), Suc w)"

text \<open>
  A sample state of the discriminator: one group, \<open>group_0\<close>, of the candidate at
  address 0, and two candidates not yet classified.
\<close>

definition disc_sample :: "nat dstate" where
  "disc_sample =
     \<lparr>heap = [(Candidate_new ''a = 1'' 5)\<lparr>group_id := Some ''group_0''\<rparr>,
              Candidate_new ''b = 2'' 5, Candidate_new '' a = 1'' 5],
      world = 0,
      groups = [(''group_0'', \<lparr>sg_id = ''group_0'', representative = 0, members = [0]\<rparr>)],
      comparison_cache = (\<lambda>key. None)\<rparr>"

section \<open>Voter (mdap/mdap/voter.py)\<close>

record LLMResponse =
  content :: string
  tokens_input :: int
  tokens_output :: int
  resp_model :: string
  stop_reason :: string

text \<open>
  The generator is called with the same step and context every time; what it returns, or
  that it raises, depends on the state of the language model.
\<close>

type_synonym 'w generator = "'w \<Rightarrow> (error + LLMResponse) \<times> 'w"

text \<open>What a call of \<open>vote\<close> is given and does not change.\<close>

record 'w env =
  generator :: "'w generator"
  comparator :: "'w compare_semantic"
  config :: MDAPConfig
  parser :: ast_parse
  target_language :: Language
  step_id :: string
  task_context :: string

text \<open>
  The voting session together with the discriminator's state \<open>disc\<close>. The field
  \<open>gen_log\<close> is not in the source: it records, for each invocation of the generator
  in order, whether it returned normally, so that the invocations can be counted.
\<close>

record 'w session =
  disc :: "'w dstate"
  samples :: "addr list"
  valid_samples :: "addr list"
  invalid_samples :: "addr list"
  is_complete :: bool
  winner :: "SemanticGroup option"
  gen_log :: "bool list"

record VoteResult =
  vr_winner :: addr
  vr_groups :: "(string \<times> addr list) list"
  votes_per_group :: "(string \<times> int) list"
  total_samples :: int
  winning_margin :: int

text \<open>
  One turn of the \<open>while\<close> loop of \<open>vote\<close>, as the session it leaves and the
  exception, if any, that ends \<open>vote\<close> in that turn; only the comparison inside
  \<open>classify\<close> can raise one, and \<open>continue\<close> is a turn that ends early.
\<close>

definition vote_step :: "'w env \<Rightarrow> int \<Rightarrow> 'w session \<Rightarrow> error option \<times> 'w session" where
  "vote_step env k st =
     (case generator env (world (disc st)) of
        (Inl e, w') \<Rightarrow>
          (None, st\<lparr>disc := (disc st)\<lparr>world := w'\<rparr>, gen_log := gen_log st @ [False]\<rparr>)
      | (Inr response, w') \<Rightarrow>
          (let candidate = length (heap (disc st));
               st1 = st\<lparr>disc := (disc st)\<lparr>world := w',
                        heap := heap (disc st) @
                          [Candidate_new (content response) (tokens_output response)]\<rparr>,
                      samples := samples st @ [candidate],
                      gen_log := gen_log st @ [True]\<rparr>;
               flag_result = check (config env) (parser env) (heap (disc st1) ! candidate)
                               (target_language env)
           in if \<not> passed flag_result
              then (None, st1\<lparr>disc := (disc st1)\<lparr>heap := (heap (disc st1))
                             [candidate := (heap (disc st1) ! candidate)
                                \<lparr>is_valid := False,
                                 red_flag_reason := rf_reason flag_result\<rparr>]\<rparr>,
                           invalid_samples := invalid_samples st1 @ [candidate]\<rparr>)
              else
                (let st2 = st1\<lparr>valid_samples := valid_samples st1 @ [candidate]\<rparr>
                 in case classify (comparator env) (disc st2) candidate (task_context env) of
                      (Inl e, d') \<Rightarrow> (Some e, st2\<lparr>disc := d'\<rparr>)
                    | (Inr g, d') \<Rightarrow>
                        (case get_winner d' k of
                           Some w \<Rightarrow> (None, st2\<lparr>disc := d', is_complete := True, winner := Some w\<rparr>)
                         | None \<Rightarrow> (None, st2\<lparr>disc := d'\<rparr>)))))"

text \<open>
  The loop. A generator that raises every time keeps it running for ever, so its result
  is an option: \<open>None\<close> is the loop that never ends.
\<close>

partial_function (option) vote_loop ::
  "'w env \<Rightarrow> int \<Rightarrow> int \<Rightarrow> 'w session \<Rightarrow> (error option \<times> 'w session) option"
where
  "vote_loop env k max_samples st =
     (if int (length (samples st)) < max_samples \<and> \<not> is_complete st
      then (case vote_step env k st of
              (Some e, st') \<Rightarrow> Some (Some e, st')
            | (None, st') \<Rightarrow> vote_loop env k max_samples st')
      else Some (None, st))"

declare vote_loop.simps [code]

text \<open>The dictionary comprehensions \<open>{g.id: f(g) for g in groups.values()}\<close>.\<close>

definition dict_of_groups :: "(SemanticGroup \<Rightarrow> 'v) \<Rightarrow> SemanticGroup list \<Rightarrow> (string \<times> 'v) list" where
  "dict_of_groups f gs = foldl (\<lambda>acc g. dict_set acc (sg_id g) (f g)) [] gs"

text \<open>The part of \<open>vote\<close> after the loop (\<open>Monta resultado\<close>).\<close>

definition build_result :: "'w env \<Rightarrow> 'w session \<Rightarrow> (error + VoteResult) \<times> 'w session" where
  "build_result env st =
     (case (case winner st of
              Some w \<Rightarrow> Some (representative w, st)
            | None \<Rightarrow>
                (if groups (disc st) \<noteq> []
                 then (case sorted_desc votes (map snd (groups (disc st))) of
                         [] \<Rightarrow> None
                       | g # _ \<Rightarrow> Some (representative g, st\<lparr>winner := Some g\<rparr>))
                 else None)) of
        None \<Rightarrow> (Inl (ValueError (''No valid candidates for step '' @ step_id env)), st)
      | Some (winner_candidate, st') \<Rightarrow>
          (let vpg = dict_of_groups votes (map snd (groups (disc st')));
               margin = (if length vpg > 1
                         then (case sorted_desc id (map snd vpg) of
                                 a # b # _ \<Rightarrow> a - b
                               | _ \<Rightarrow> 0)
                         else 0)
           in (Inr \<lparr>vr_winner = winner_candidate,
                    vr_groups = dict_of_groups members (map snd (groups (disc st'))),
                    votes_per_group = vpg,
                    total_samples = int (length (samples st')),
                    winning_margin = margin\<rparr>, st')))"

text \<open>
  \<open>vote\<close>: \<open>k\<close> and \<open>max_samples\<close> default to the configuration when they are
  \<open>None\<close> or \<open>0\<close>; the discriminator is reset and a new session is made. The store
  starts empty: the candidates of earlier votes are not reachable from this one.
\<close>

definition session_init :: "'w \<Rightarrow> 'w session" where
  "session_init w =
     \<lparr>disc = \<lparr>heap = [], world = w, groups = [], comparison_cache = (\<lambda>key. None)\<rparr>,
      samples = [], valid_samples = [], invalid_samples = [], is_complete = False,
      winner = None, gen_log = []\<rparr>"

definition vote ::
  "'w env \<Rightarrow> int option \<Rightarrow> int option \<Rightarrow> 'w \<Rightarrow> ((error + VoteResult) \<times> 'w session) option"
where
  "vote env k_arg max_samples_arg w =
     (let k = py_or k_arg (cfg_k (config env));
          max_samples = py_or max_samples_arg (cfg_max_samples (config env))
      in case vote_loop env k max_samples (session_init w) of
           None \<Rightarrow> None
         | Some (Some e, st) \<Rightarrow> Some (Inl e, st)
         | Some (None, st) \<Rightarrow> Some (build_result env st))"

text \<open>
  Sample generators, whose state counts the calls: one that returns the same accepted
  text every time, and one whose first call raises.
\<close>

definition gen_const :: "string \<Rightarrow> nat generator" where
  "gen_const c w =
     (Inr \<lparr>content = c, tokens_input = 10, tokens_output = 20, resp_model = ''test'',
           stop_reason = ''end_turn''\<rparr>, Suc w)"

definition gen_first_fails :: "string \<Rightarrow> nat generator" where
  "gen_first_fails c w =
     (if w = 0 then (Inl (OtherException ''timeout''), Suc w) else gen_const c w)"

text \<open>A generator every call of which raises.\<close>

definition gen_fails :: "nat generator" where
  "gen_fails w = (Inl (OtherException ''timeout''), Suc w)"

definition env_sample :: "nat generator \<Rightarrow> nat compare_semantic \<Rightarrow> nat env" where
  "env_sample g c =
     \<lparr>generator = g, comparator = c, config = MDAPConfig_default, parser = parse_accepts,
      target_language = PYTHON, step_id = ''s1'', task_context = ''task''\<rparr>"

text \<open>
  What holds of a session throughout a vote: the samples are the candidates of the store
  in order, one for each invocation of the generator that returned; no candidate is both
  valid and invalid; the members of the groups are valid samples; and an invalid sample
  is marked invalid with the reason the filter gives for it and has no group.
\<close>

definition session_ok :: "'w env \<Rightarrow> 'w session \<Rightarrow> bool" where
  "session_ok env st =
     (samples st = [0..<length (heap (disc st))] \<and>
      length (samples st) = length (filter id (gen_log st)) \<and>
      set (valid_samples st) \<inter> set (invalid_samples st) = {} \<and>
      set (valid_samples st) \<subseteq> set (samples st) \<and>
      set (invalid_samples st) \<subseteq> set (samples st) \<and>
      (\<forall>g \<in> snd ` set (groups (disc st)). set (members g) \<subseteq> set (valid_samples st)) \<and>
      (\<forall>a \<in> set (invalid_samples st).
         \<not> is_valid (heap (disc st) ! a) \<and>
         \<not> passed (check (config env) (parser env) (heap (disc st) ! a) (target_language env)) \<and>
         red_flag_reason (heap (disc st) ! a) =
           rf_reason (check (config env) (parser env) (heap (disc st) ! a)
                        (target_language env)) \<and>
         group_id (heap (disc st) ! a) = None))"

section \<open>Verified properties\<close>

lemma in_table_can: "can_transition s to = in_table (current s) to"
  by (cases "current s") (simp_all add: can_transition_def in_table_def)

lemma transition_invalid: "\<not> in_table (current s) to \<Longrightarrow> transition s to why clk = Inr (False, s)"
  by (simp add: transition_def in_table_can)

lemma transition_valid:
  "in_table (current s) to \<Longrightarrow>
   \<exists>s'. transition s to why clk = Inr (True, s') \<and> current s' = to \<and>
      transition_history s' = transition_history s @
        [\<lparr>from_state = current s, to_state = to, reason = why, timestamp = fst clk\<rparr>] \<and>
      previous s' = (if to = PAUSED then Some (current s) else previous s)"
  by (simp add: transition_def in_table_can Let_def)

text \<open>
  C3 (as the code has it). A transition whose pair \<open>(from, to)\<close> is not in the table
  is refused by returning \<open>False\<close>: the whole state, and so the current state and the
  history, is left as it was, and nothing is raised. A transition that is taken
  (\<open>True\<close>) has its pair in the table and appends exactly one record of that pair to
  the history; hence a history whose pairs are all in the table stays so.
\<close>

theorem transition_rejects_invalid:
  "(\<not> in_table (current s) to \<longrightarrow> transition s to why clk = Inr (False, s)) \<and>
   (\<forall>s'. transition s to why clk = Inr (True, s') \<longrightarrow>
      in_table (current s) to \<and> current s' = to \<and>
      transition_history s' = transition_history s @
        [\<lparr>from_state = current s, to_state = to, reason = why, timestamp = fst clk\<rparr>]) \<and>
   (history_in_table s \<longrightarrow>
      (\<forall>b s'. transition s to why clk = Inr (b, s') \<longrightarrow> history_in_table s')) \<and>
   \<not> isl (transition s to why clk)"
proof (cases "in_table (current s) to")
  case False
  have "transition s to why clk = Inr (False, s)" by (rule transition_invalid [OF False])
  with False show ?thesis by simp
next
  case True
  from transition_valid [OF True, of why clk] obtain s1 where
    t: "transition s to why clk = Inr (True, s1)" and c: "current s1 = to" and
    h: "transition_history s1 = transition_history s @
        [\<lparr>from_state = current s, to_state = to, reason = why, timestamp = fst clk\<rparr>]"
    by blast
  have v: "history_in_table s \<Longrightarrow> history_in_table s1"
    using True by (simp add: history_in_table_def h)
  show ?thesis unfolding t using c h True v by auto
qed


theorem transition_rejects_invalid_witness:
  "\<not> in_table (current OrchestratorState_init) COMPLETED \<and>
   transition OrchestratorState_init COMPLETED ''x'' (1, 2) = Inr (False, OrchestratorState_init) \<and>
   history_in_table OrchestratorState_init \<and>
   (\<exists>s'. transition OrchestratorState_init EXPANDING ''go'' (1, 2) = Inr (True, s') \<and>
      in_table IDLE EXPANDING \<and> current s' = EXPANDING \<and> history_in_table s' \<and>
      transition_history s' =
        [\<lparr>from_state = IDLE, to_state = EXPANDING, reason = ''go'', timestamp = 1\<rparr>])"
proof -
  have a: "\<not> in_table (current OrchestratorState_init) COMPLETED"
    by (simp add: OrchestratorState_init_def in_table_def)
  have b: "history_in_table OrchestratorState_init"
    by (simp add: OrchestratorState_init_def history_in_table_def)
  have i: "current OrchestratorState_init = IDLE" "transition_history OrchestratorState_init = []"
    by (simp_all add: OrchestratorState_init_def)
  have e: "in_table (current OrchestratorState_init) EXPANDING"
    by (simp add: i in_table_def)
  from transition_valid [OF e, of "''go''" "(1, 2)"] obtain s1 where
    c: "transition OrchestratorState_init EXPANDING ''go'' (1, 2) = Inr (True, s1)"
    by blast
  note r1 = transition_rejects_invalid [of OrchestratorState_init COMPLETED "''x''" "(1, 2)"]
  note r2 = transition_rejects_invalid [of OrchestratorState_init EXPANDING "''go''" "(1, 2)"]
  from r1 a have p1: "transition OrchestratorState_init COMPLETED ''x'' (1, 2) =
      Inr (False, OrchestratorState_init)" by blast
  from r2 b c have p2: "in_table IDLE EXPANDING \<and> current s1 = EXPANDING \<and>
      history_in_table s1 \<and> transition_history s1 =
        [\<lparr>from_state = IDLE, to_state = EXPANDING, reason = ''go'', timestamp = 1\<rparr>]"
    unfolding i by auto
  from a p1 b c p2 show ?thesis by blast
qed

text \<open>
  The pair \<open>(IDLE, COMPLETED)\<close> is not in the table; asking for it returns \<open>False\<close>
  normally instead of raising.
\<close>

theorem transition_invalid_raises_counterexample:
  "\<not> in_table (current OrchestratorState_init) COMPLETED \<and>
   transition OrchestratorState_init COMPLETED ''x'' (1, 2) = Inr (False, OrchestratorState_init) \<and>
   \<not> isl (transition OrchestratorState_init COMPLETED ''x'' (1, 2))"
  by (simp add: OrchestratorState_init_def in_table_def transition_def can_transition_def)

lemma exec_phase_cases:
  "s \<in> EXECUTION_PHASES \<longleftrightarrow> s = EXPANDING \<or> s = DECOMPOSING \<or> s = GENERATING \<or> s = VALIDATING"
  by (auto simp: EXECUTION_PHASES_def)

lemma exec_to_paused: "s \<in> EXECUTION_PHASES \<Longrightarrow> in_table s PAUSED"
  by (auto simp: exec_phase_cases in_table_def)

lemma paused_to_exec: "s \<in> EXECUTION_PHASES \<Longrightarrow> in_table PAUSED s"
  by (auto simp: exec_phase_cases in_table_def)

lemma state_emit [simp]: "state (emit_state_change orch why) = state orch"
  by (simp add: emit_state_change_def)

lemma pause_when_paused: "current (state orch) = PAUSED \<Longrightarrow> pause orch clk = Inr (False, orch)"
  by (simp add: pause_def is_pausable_def EXECUTION_PHASES_def)

lemma pause_exec:
  assumes "current (state orch) \<in> EXECUTION_PHASES"
  shows "\<exists>o1. pause orch clk = Inr (True, o1) \<and> current (state o1) = PAUSED \<and>
           previous (state o1) = Some (current (state orch))"
proof -
  from transition_valid [OF exec_to_paused [OF assms], of "''Pausado pelo usu'' @ [CHR 0xE1] @ ''rio''" clk]
  obtain s1 where "transition (state orch) PAUSED (''Pausado pelo usu'' @ [CHR 0xE1] @ ''rio'') clk = Inr (True, s1)"
    "current s1 = PAUSED" "previous s1 = Some (current (state orch))" by auto
  with assms show ?thesis by (simp add: pause_def is_pausable_def Let_def)
qed

lemma resume_paused:
  assumes "current (state o1) = PAUSED" "previous (state o1) = Some s" "s \<in> EXECUTION_PHASES"
  shows "\<exists>o2. resume o1 clk = Inr (True, o2) \<and> current (state o2) = s"
proof -
  have "in_table (current (state o1)) s" using assms paused_to_exec by simp
  from transition_valid [OF this, of "''Retomando execu'' @ [CHR 0xE7, CHR 0xE3] @ ''o''" clk]
  obtain s2 where "transition (state o1) s (''Retomando execu'' @ [CHR 0xE7, CHR 0xE3] @ ''o'') clk = Inr (True, s2)"
    "current s2 = s" by auto
  with assms show ?thesis by (simp add: resume_def get_resume_state_def)
qed

text \<open>
  C8. From an execution phase \<open>s\<close>, the transition to \<open>PAUSED\<close> is taken and saves
  \<open>s\<close> as the previous state; \<open>pause\<close> does exactly that, and a following \<open>resume\<close>
  brings the current state back to \<open>s\<close>. A \<open>pause\<close> requested while the machine is
  \<open>PAUSED\<close> returns \<open>False\<close> and leaves the whole orchestrator as it was.
\<close>

theorem pause_resume_round_trip:
  assumes "current (state orch) \<in> EXECUTION_PHASES"
  shows "\<exists>s1 o1 o2.
           transition (state orch) PAUSED why c0 = Inr (True, s1) \<and>
           current s1 = PAUSED \<and> previous s1 = Some (current (state orch)) \<and>
           pause orch c1 = Inr (True, o1) \<and>
           current (state o1) = PAUSED \<and>
           previous (state o1) = Some (current (state orch)) \<and>
           get_resume_state (state o1) = Some (current (state orch)) \<and>
           resume o1 c2 = Inr (True, o2) \<and>
           current (state o2) = current (state orch) \<and>
           pause o1 c3 = Inr (False, o1)"
proof -
  from transition_valid [OF exec_to_paused [OF assms], of why c0]
  obtain s1 where s1: "transition (state orch) PAUSED why c0 = Inr (True, s1)"
    "current s1 = PAUSED" "previous s1 = Some (current (state orch))" by auto
  from pause_exec [OF assms, of c1] obtain o1 where
    o1: "pause orch c1 = Inr (True, o1)" "current (state o1) = PAUSED"
        "previous (state o1) = Some (current (state orch))" by blast
  from resume_paused [OF o1(2) o1(3) assms, of c2] obtain o2 where
    o2: "resume o1 c2 = Inr (True, o2)" "current (state o2) = current (state orch)" by blast
  have g: "get_resume_state (state o1) = Some (current (state orch))"
    using o1 by (simp add: get_resume_state_def)
  from s1 o1 o2 g pause_when_paused [OF o1(2), of c3] show ?thesis by blast
qed


theorem pause_resume_round_trip_witness:
  "current (state (orch_at GENERATING)) \<in> EXECUTION_PHASES \<and>
   (\<exists>o1 o2. pause (orch_at GENERATING) (1, 2) = Inr (True, o1) \<and>
      current (state o1) = PAUSED \<and> previous (state o1) = Some GENERATING \<and>
      resume o1 (3, 4) = Inr (True, o2) \<and> current (state o2) = GENERATING \<and>
      pause o1 (5, 6) = Inr (False, o1))"
proof -
  have c: "current (state (orch_at GENERATING)) = GENERATING"
    by (simp add: orch_at_def OrchestratorState_init_def)
  have e: "current (state (orch_at GENERATING)) \<in> EXECUTION_PHASES"
    by (simp add: c EXECUTION_PHASES_def)
  from pause_resume_round_trip [OF e, of "''w''" "(0, 0)" "(1, 2)" "(3, 4)" "(5, 6)"] e
  show ?thesis unfolding c by blast
qed

text \<open>
  C2. In state \<open>EXPANDING\<close> (and likewise \<open>GENERATING\<close>) the pair with target
  \<open>IDLE\<close> is not in the transition table, so the transition made by \<open>cancel\<close> is
  refused: \<open>cancel\<close> still answers \<open>True\<close>, the state is the one before the call, and
  the following \<open>start_task\<close> raises because the pipeline is still running.
\<close>

theorem cancel_in_execution_phase_stays:
  "cancel (orch_at EXPANDING) (1, 2) =
     Inr (True, emit_state_change (orch_at EXPANDING) ''Pipeline cancelado'') \<and>
   current (state (emit_state_change (orch_at EXPANDING) ''Pipeline cancelado'')) = EXPANDING \<and>
   isl (start_task_begin (emit_state_change (orch_at EXPANDING) ''Pipeline cancelado'') ''new'') \<and>
   cancel (orch_at GENERATING) (1, 2) =
     Inr (True, emit_state_change (orch_at GENERATING) ''Pipeline cancelado'') \<and>
   current (state (emit_state_change (orch_at GENERATING) ''Pipeline cancelado'')) = GENERATING"
  by (simp add: cancel_def transition_def can_transition_def orch_at_def
        OrchestratorState_init_def start_task_begin_def is_running_def EXECUTION_PHASES_def)

lemma cancel_from_paused_ok:
  "cancel (orch_at PAUSED) (1, 2) = Inr (True, o') \<Longrightarrow> current (state o') = IDLE"
  by (auto simp: cancel_def transition_def can_transition_def orch_at_def
        OrchestratorState_init_def EXECUTION_PHASES_def Let_def)

lemma parse_body_dict:
  assumes "search_braces (sub_trailing_fence (sub_leading_fence (strip response))) = Some js"
      and "json_loads lib js = Inr (JDict d)"
      and "map_of d ''intent'' = Some (JStr label)"
      and "map_of d ''confidence'' = Some (JFloat c)"
  shows "\<exists>r. parse_body lib response message = Inr (Some r) \<and>
           intent r = (case intent_map (upper label) of None \<Rightarrow> CHAT_GENERAL | Some i \<Rightarrow> i) \<and>
           confidence r = c"
  using assms
  by (simp add: parse_body_def and_then_def dict_get_def str_upper_def py_float_def
        IntentResult_new_def del: intent_map.simps)

text \<open>
  C9 (as the code has it). When the reply holds a JSON object with a string intent label
  and a float confidence, the detector returns the intent named by the label (general
  chat when the upper-cased label is none of the twelve names) together with that
  confidence, whatever the confidence is: no threshold is applied. The one step that
  looks at the confidence is the retry by local keywords, taken only when the parsed
  result is exactly general chat with confidence \<open>0.5\<close>.
\<close>

theorem detect_returns_reply_intent:
  assumes "search_braces (sub_trailing_fence (sub_leading_fence (strip response))) = Some js"
      and "json_loads lib js = Inr (JDict d)"
      and "map_of d ''intent'' = Some (JStr label)"
      and "map_of d ''confidence'' = Some (JFloat c)"
      and "c \<noteq> Fin (1 / 2) \<or>
           (case intent_map (upper label) of None \<Rightarrow> CHAT_GENERAL | Some i \<Rightarrow> i) \<noteq> CHAT_GENERAL"
  shows "intent (detect lib (Inr response) message) =
           (case intent_map (upper label) of None \<Rightarrow> CHAT_GENERAL | Some i \<Rightarrow> i) \<and>
         confidence (detect lib (Inr response) message) = c"
proof -
  from parse_body_dict [OF assms(1-4), of message] obtain r where
    r: "parse_body lib response message = Inr (Some r)"
       "intent r = (case intent_map (upper label) of None \<Rightarrow> CHAT_GENERAL | Some i \<Rightarrow> i)"
       "confidence r = c" by blast
  have p: "parse_response lib response message = Inr r"
    by (simp add: parse_response_def r(1))
  have "detect lib (Inr response) message = r"
    using assms(5) r(2,3) by (auto simp add: detect_def p simp del: intent_map.simps)
  with r show ?thesis by simp
qed

lemma sample_braces:
  "search_braces (sub_trailing_fence (sub_leading_fence (strip sample_reply))) = Some sample_reply"
  by code_simp

lemma sample_upper: "intent_map (upper ''TASK_SIMPLE'') = Some TASK_SIMPLE"
  by code_simp

theorem detect_returns_reply_intent_witness:
  "search_braces (sub_trailing_fence (sub_leading_fence (strip sample_reply))) = Some sample_reply \<and>
   json_loads sample_lib sample_reply =
     Inr (JDict [(''intent'', JStr ''TASK_SIMPLE''), (''confidence'', JFloat (Fin (1 / 4)))]) \<and>
   Fin (1 / 4) \<noteq> Fin (1 / 2) \<and>
   intent (detect sample_lib (Inr sample_reply) ''oi'') = TASK_SIMPLE \<and>
   confidence (detect sample_lib (Inr sample_reply) ''oi'') = Fin (1 / 4)"
proof -
  have l: "json_loads sample_lib sample_reply =
     Inr (JDict [(''intent'', JStr ''TASK_SIMPLE''), (''confidence'', JFloat (Fin (1 / 4)))])"
    by (simp add: sample_lib_def)
  have i: "map_of [(''intent'', JStr ''TASK_SIMPLE''), (''confidence'', JFloat (Fin (1 / 4)))]
             ''intent'' = Some (JStr ''TASK_SIMPLE'')" by simp
  have c: "map_of [(''intent'', JStr ''TASK_SIMPLE''), (''confidence'', JFloat (Fin (1 / 4)))]
             ''confidence'' = Some (JFloat (Fin (1 / 4)))" by simp
  have n: "Fin (1 / 4) \<noteq> Fin (1 / 2) \<or>
       (case intent_map (upper ''TASK_SIMPLE'') of None \<Rightarrow> CHAT_GENERAL | Some i \<Rightarrow> i) \<noteq> CHAT_GENERAL"
    by simp
  from detect_returns_reply_intent [OF sample_braces l i c n, of "''oi''"] sample_braces l
  show ?thesis by (simp add: sample_upper del: intent_map.simps)
qed

text \<open>
  The reply \<open>{"intent": "TASK_SIMPLE", "confidence": 0.25}\<close> is parsed to the
  confidence \<open>0.25\<close>, below \<open>0.6\<close>, and the intent returned is the simple task, not
  general chat.
\<close>

theorem detect_low_confidence_counterexample:
  "confidence (detect sample_lib (Inr sample_reply) ''oi'') = Fin (1 / 4) \<and>
   (1 / 4 :: rat) < 6 / 10 \<and>
   intent (detect sample_lib (Inr sample_reply) ''oi'') = TASK_SIMPLE \<and>
   intent (detect sample_lib (Inr sample_reply) ''oi'') \<noteq> CHAT_GENERAL"
proof -
  have "detect sample_lib (Inr sample_reply) ''oi'' =
     \<lparr>intent = TASK_SIMPLE, confidence = Fin (1 / 4), ir_task = JStr ''oi'',
      reasoning = JStr []\<rparr>"
    by code_simp
  then show ?thesis by simp
qed




lemma startswith_Nil [simp]: "startswith s []"
  by (simp add: startswith_def)


lemma startswith_append [simp]: "startswith (p @ s) p"
  by (simp add: startswith_def)























lemma set_check_new: "name \<notin> fst ` set cs \<Longrightarrow> set_check cs name v = cs @ [(name, v)]"
  by (simp add: set_check_def)









lemma digit_inj:
  "a < 10 \<Longrightarrow> b < 10 \<Longrightarrow> ''0123456789'' ! a = ''0123456789'' ! b \<Longrightarrow> a = b"
proof -
  assume a: "a < 10" and b: "b < 10" and e: "''0123456789'' ! a = ''0123456789'' ! b"
  have d: "distinct ''0123456789''" by simp
  have l: "length ''0123456789'' = 10" by simp
  from d a b e l show ?thesis by (metis nth_eq_iff_index_eq)
qed

lemma show_nat_nonempty: "show_nat n \<noteq> []"
  by (subst show_nat.simps) simp

lemma show_nat_inj: "show_nat m = show_nat n \<Longrightarrow> m = n"
proof (induction m arbitrary: n rule: show_nat.induct)
  case (1 m)
  show ?case
  proof (cases "m < 10")
    case True
    show ?thesis
    proof (cases "n < 10")
      case n: True
      from "1.prems" True n have "''0123456789'' ! m = ''0123456789'' ! n"
        by (simp add: show_nat.simps [of m] show_nat.simps [of n])
      with True n show ?thesis by (rule digit_inj)
    next
      case n: False
      from "1.prems" True n have "[''0123456789'' ! m] =
          show_nat (n div 10) @ [''0123456789'' ! (n mod 10)]"
        by (simp add: show_nat.simps [of m] show_nat.simps [of n])
      then have "show_nat (n div 10) = []" by simp
      with show_nat_nonempty show ?thesis by blast
    qed
  next
    case False
    show ?thesis
    proof (cases "n < 10")
      case n: True
      from "1.prems" False n have "show_nat (m div 10) @ [''0123456789'' ! (m mod 10)] =
          [''0123456789'' ! n]"
        by (simp add: show_nat.simps [of m] show_nat.simps [of n])
      then have "show_nat (m div 10) = []" by simp
      with show_nat_nonempty show ?thesis by blast
    next
      case n: False
      from "1.prems" False n have e: "show_nat (m div 10) @ [''0123456789'' ! (m mod 10)] =
          show_nat (n div 10) @ [''0123456789'' ! (n mod 10)]"
        by (simp add: show_nat.simps [of m] show_nat.simps [of n])
      then have p: "show_nat (m div 10) = show_nat (n div 10)"
        and q: "''0123456789'' ! (m mod 10) = ''0123456789'' ! (n mod 10)" by simp_all
      from "1.IH" [OF False p] have d: "m div 10 = n div 10" .
      have "m mod 10 = n mod 10" by (rule digit_inj [OF _ _ q]) simp_all
      with d show ?thesis by (metis div_mult_mod_eq)
    qed
  qed
qed

lemma group_name_inj: "''group_'' @ show_nat m = ''group_'' @ show_nat n \<Longrightarrow> m = n"
  using show_nat_inj by simp

lemma compare_keeps:
  "compare cs s a b ctx = (r, s') \<Longrightarrow> heap s' = heap s \<and> groups s' = groups s"
  by (auto simp: compare_def Let_def split: option.splits prod.splits sum.splits)

lemma rejected_by_keeps:
  "rejected_by cs ctx c gs s = Some s' \<Longrightarrow> heap s' = heap s \<and> groups s' = groups s"
proof (induction gs arbitrary: s)
  case Nil
  then show ?case by simp
next
  case (Cons g gs)
  then show ?case
    by (auto split: prod.splits sum.splits bool.splits dest!: compare_keeps)
qed

lemma find_group_in_keeps:
  "find_group_in cs ctx c i gs s = (r, s') \<Longrightarrow> heap s' = heap s \<and> groups s' = groups s"
proof (induction gs arbitrary: s i)
  case Nil
  then show ?case by simp
next
  case (Cons g gs)
  then show ?case
    by (auto split: prod.splits sum.splits bool.splits dest!: compare_keeps)
qed

lemma find_group_in_first_yes:
  "rejected_by cs ctx c pre s = Some s1 \<Longrightarrow>
   compare cs s1 c (code (heap s ! representative g)) ctx = (Inr True, s2) \<Longrightarrow>
   find_group_in cs ctx c i (pre @ g # post) s = (Inr (Some (i + length pre)), s2)"
proof (induction pre arbitrary: s i)
  case Nil
  then show ?case by simp
next
  case (Cons p pre)
  from Cons.prems(1) obtain s' where
    c: "compare cs s c (code (heap s ! representative p)) ctx = (Inr False, s')" and
    r: "rejected_by cs ctx c pre s' = Some s1"
    by (auto split: prod.splits sum.splits bool.splits)
  from compare_keeps [OF c] have h: "heap s' = heap s" by simp
  from Cons.IH [OF r, of "Suc i"] Cons.prems(2) h
  have "find_group_in cs ctx c (Suc i) (pre @ g # post) s' = (Inr (Some (Suc i + length pre)), s2)"
    by simp
  with c show ?case by simp
qed

lemma find_group_in_none:
  "rejected_by cs ctx c gs s = Some s1 \<Longrightarrow> find_group_in cs ctx c i gs s = (Inr None, s1)"
proof (induction gs arbitrary: s i)
  case Nil
  then show ?case by simp
next
  case (Cons g gs)
  then show ?case by (auto split: prod.splits sum.splits bool.splits)
qed

lemma find_group_in_result:
  "find_group_in cs ctx c i gs s = (Inr (Some j), s2) \<Longrightarrow>
   \<exists>pre g post s1. gs = pre @ g # post \<and> j = i + length pre \<and>
     rejected_by cs ctx c pre s = Some s1 \<and>
     compare cs s1 c (code (heap s ! representative g)) ctx = (Inr True, s2)"
proof (induction gs arbitrary: s i)
  case Nil
  then show ?case by simp
next
  case (Cons g gs)
  obtain r s' where c: "compare cs s c (code (heap s ! representative g)) ctx = (r, s')"
    by (cases "compare cs s c (code (heap s ! representative g)) ctx") auto
  show ?case
  proof (cases r)
    case (Inl e)
    with Cons.prems c show ?thesis by simp
  next
    case (Inr b)
    show ?thesis
    proof (cases b)
      case True
      with Cons.prems c Inr have "j = i" "s2 = s'" by simp_all
      with c Inr True have "g # gs = [] @ g # gs \<and> j = i + length ([]::SemanticGroup list) \<and>
        rejected_by cs ctx c [] s = Some s \<and>
        compare cs s c (code (heap s ! representative g)) ctx = (Inr True, s2)" by simp
      then show ?thesis by blast
    next
      case False
      with Cons.prems c Inr have f: "find_group_in cs ctx c (Suc i) gs s' = (Inr (Some j), s2)"
        by simp
      from compare_keeps [OF c] have h: "heap s' = heap s" by simp
      from Cons.IH [OF f] obtain pre g' post s1 where
        p: "gs = pre @ g' # post" "j = Suc i + length pre"
           "rejected_by cs ctx c pre s' = Some s1"
           "compare cs s1 c (code (heap s' ! representative g')) ctx = (Inr True, s2)" by blast
      from p c Inr False h have "g # gs = (g # pre) @ g' # post \<and> j = i + length (g # pre) \<and>
        rejected_by cs ctx c (g # pre) s = Some s1 \<and>
        compare cs s1 c (code (heap s ! representative g')) ctx = (Inr True, s2)" by simp
      then show ?thesis by blast
    qed
  qed
qed

lemma find_group_in_none_result:
  "find_group_in cs ctx c i gs s = (Inr None, s1) \<Longrightarrow> rejected_by cs ctx c gs s = Some s1"
proof (induction gs arbitrary: s i)
  case Nil
  then show ?case by simp
next
  case (Cons g gs)
  then show ?case by (auto split: prod.splits sum.splits bool.splits)
qed

lemma dict_set_fresh: "k \<notin> fst ` set kvs \<Longrightarrow> dict_set kvs k v = kvs @ [(k, v)]"
  by (induction kvs) auto

lemma dict_set_mem: "(k, v) \<in> set (dict_set kvs k v)"
  by (induction kvs) auto

lemma numbered_fresh:
  assumes "numbered gs"
  shows "''group_'' @ show_nat (length gs) \<notin> fst ` set gs"
proof
  assume "''group_'' @ show_nat (length gs) \<in> fst ` set gs"
  then have "''group_'' @ show_nat (length gs) \<in> set (map fst gs)" by simp
  also have "map fst gs = map (\<lambda>i. ''group_'' @ show_nat i) [0..<length gs]"
    using assms by (simp add: numbered_def)
  finally obtain i where "i < length gs"
    "''group_'' @ show_nat (length gs) = ''group_'' @ show_nat i" by auto
  with group_name_inj show False by blast
qed

lemma numbered_append:
  assumes "numbered gs" "sg_id g = ''group_'' @ show_nat (length gs)"
  shows "numbered (gs @ [(''group_'' @ show_nat (length gs), g)])"
  using assms by (simp add: numbered_def)

lemma classify_join:
  assumes g: "groups s = pre @ (key, g) # post"
      and r: "rejected_by cs ctx (code (heap s ! candidate)) (map snd pre) s = Some s1"
      and c: "compare cs s1 (code (heap s ! candidate)) (code (heap s ! representative g)) ctx =
                (Inr True, s2)"
  shows "classify cs s candidate ctx =
     (Inr (g\<lparr>members := members g @ [candidate]\<rparr>),
      s2\<lparr>heap := set_group_id (heap s) candidate (sg_id g),
         groups := pre @ (key, g\<lparr>members := members g @ [candidate]\<rparr>) # post\<rparr>)"
proof -
  have f: "find_group cs s candidate ctx = (Inr (Some (length pre)), s2)"
    using find_group_in_first_yes [OF r c, of 0 "map snd post"] g
    by (simp add: find_group_def)
  from rejected_by_keeps [OF r] compare_keeps [OF c]
  have k: "heap s2 = heap s" "groups s2 = groups s" by simp_all
  have n: "groups s ! length pre = (key, g)" using g by simp
  have u: "(groups s)[length pre := (key, g\<lparr>members := members g @ [candidate]\<rparr>)] =
      pre @ (key, g\<lparr>members := members g @ [candidate]\<rparr>) # post" using g by simp
  show ?thesis by (simp add: classify_def f k n u Let_def)
qed

lemma classify_new:
  assumes r: "rejected_by cs ctx (code (heap s ! candidate)) (map snd (groups s)) s = Some s1"
  shows "classify cs s candidate ctx =
     (Inr \<lparr>sg_id = ''group_'' @ show_nat (length (groups s)), representative = candidate,
           members = [candidate]\<rparr>,
      s1\<lparr>heap := set_group_id (heap s) candidate (''group_'' @ show_nat (length (groups s))),
         groups := dict_set (groups s) (''group_'' @ show_nat (length (groups s)))
           \<lparr>sg_id = ''group_'' @ show_nat (length (groups s)), representative = candidate,
            members = [candidate]\<rparr>\<rparr>)"
proof -
  have f: "find_group cs s candidate ctx = (Inr None, s1)"
    using find_group_in_none [OF r, of 0] by (simp add: find_group_def)
  from rejected_by_keeps [OF r] have k: "heap s1 = heap s" "groups s1 = groups s" by simp_all
  show ?thesis by (simp add: classify_def f k Let_def)
qed

lemma classify_cases:
  assumes "classify cs s candidate ctx = (Inr r, s')"
  shows "(\<exists>pre key g post s1 s2. groups s = pre @ (key, g) # post \<and>
            rejected_by cs ctx (code (heap s ! candidate)) (map snd pre) s = Some s1 \<and>
            compare cs s1 (code (heap s ! candidate)) (code (heap s ! representative g)) ctx =
              (Inr True, s2)) \<or>
         (\<exists>s1. rejected_by cs ctx (code (heap s ! candidate)) (map snd (groups s)) s = Some s1)"
proof -
  obtain fr s0 where f: "find_group cs s candidate ctx = (fr, s0)"
    by (cases "find_group cs s candidate ctx") auto
  show ?thesis
  proof (cases fr)
    case (Inl e)
    with assms f show ?thesis by (simp add: classify_def)
  next
    case (Inr io)
    show ?thesis
    proof (cases io)
      case None
      with f Inr have "rejected_by cs ctx (code (heap s ! candidate)) (map snd (groups s)) s = Some s0"
        using find_group_in_none_result by (simp add: find_group_def)
      then show ?thesis by blast
    next
      case (Some j)
      with f Inr have "find_group_in cs ctx (code (heap s ! candidate)) 0 (map snd (groups s)) s =
          (Inr (Some j), s0)" by (simp add: find_group_def)
      from find_group_in_result [OF this] obtain pre g post s1 where
        p: "map snd (groups s) = pre @ g # post" "j = length pre"
           "rejected_by cs ctx (code (heap s ! candidate)) pre s = Some s1"
           "compare cs s1 (code (heap s ! candidate)) (code (heap s ! representative g)) ctx =
              (Inr True, s0)" by auto
      from p(1) obtain pre' kg post' where
        q: "groups s = pre' @ kg # post'" "map snd pre' = pre" "snd kg = g"
        by (auto simp: map_eq_append_conv)
      obtain key where kg: "kg = (key, g)" using q(3) by (cases kg) auto
      from q kg p have "groups s = pre' @ (key, g) # post' \<and>
        rejected_by cs ctx (code (heap s ! candidate)) (map snd pre') s = Some s1 \<and>
        compare cs s1 (code (heap s ! candidate)) (code (heap s ! representative g)) ctx =
          (Inr True, s0)" by simp
      then show ?thesis by blast
    qed
  qed
qed

lemma set_group_id_at:
  "a < length h \<Longrightarrow> group_id (set_group_id h a gid ! a) = Some gid"
  by (simp add: set_group_id_def)

lemma classify_result:
  assumes a: "candidate < length (heap s)"
      and c: "classify cs s candidate ctx = (Inr r, s')"
  shows "group_id (heap s' ! candidate) = Some (sg_id r) \<and> candidate \<in> set (members r) \<and>
         r \<in> snd ` set (groups s')"
proof -
  from classify_cases [OF c] show ?thesis
  proof
    assume "\<exists>pre key g post s1 s2. groups s = pre @ (key, g) # post \<and>
            rejected_by cs ctx (code (heap s ! candidate)) (map snd pre) s = Some s1 \<and>
            compare cs s1 (code (heap s ! candidate)) (code (heap s ! representative g)) ctx =
              (Inr True, s2)"
    then obtain pre key g post s1 s2 where
      g: "groups s = pre @ (key, g) # post" and
      r: "rejected_by cs ctx (code (heap s ! candidate)) (map snd pre) s = Some s1" and
      y: "compare cs s1 (code (heap s ! candidate)) (code (heap s ! representative g)) ctx =
              (Inr True, s2)" by blast
    from classify_join [OF g r y] c have
      e: "r = g\<lparr>members := members g @ [candidate]\<rparr>"
         "s' = s2\<lparr>heap := set_group_id (heap s) candidate (sg_id g),
                  groups := pre @ (key, g\<lparr>members := members g @ [candidate]\<rparr>) # post\<rparr>"
      by simp_all
    show ?thesis using a by (simp add: e set_group_id_at)
  next
    assume "\<exists>s1. rejected_by cs ctx (code (heap s ! candidate)) (map snd (groups s)) s = Some s1"
    then obtain s1 where
      r: "rejected_by cs ctx (code (heap s ! candidate)) (map snd (groups s)) s = Some s1"
      by blast
    from classify_new [OF r] c have
      e: "r = \<lparr>sg_id = ''group_'' @ show_nat (length (groups s)), representative = candidate,
               members = [candidate]\<rparr>"
         "s' = s1\<lparr>heap := set_group_id (heap s) candidate (''group_'' @ show_nat (length (groups s))),
                  groups := dict_set (groups s) (''group_'' @ show_nat (length (groups s))) r\<rparr>"
      by simp_all
    have m: "r \<in> snd ` set (dict_set (groups s) (''group_'' @ show_nat (length (groups s))) r)"
      using dict_set_mem [of "''group_'' @ show_nat (length (groups s))" r "groups s"]
      by force
    have i: "sg_id r = ''group_'' @ show_nat (length (groups s))"
            "members r = [candidate]" by (simp_all add: e(1))
    show ?thesis using a m by (simp add: e(2) i set_group_id_at)
  qed
qed

text \<open>
  C5. \<open>classify\<close> compares the candidate's code with the representatives of the groups in
  the order of the dictionary. If the groups before one group all answer no and that
  group answers yes, the candidate is appended to that group's members, and the other
  groups stay as they are. If every group answers no, a group is stored under the
  identifier \<open>group_n\<close>, \<open>n\<close> being the number of groups present, with the candidate
  as representative and as only member; in a dictionary built by \<open>classify\<close> this is a
  new entry at the end. In both cases the candidate's \<open>group_id\<close> becomes the
  identifier of the group returned, which is in the dictionary and has the candidate
  among its members; and the vote count of every group is the length of its member list.
\<close>

theorem classify_first_yes_or_new_group:
  assumes "candidate < length (heap s)"
  shows
   "(\<forall>pre key g post s1 s2.
       groups s = pre @ (key, g) # post \<and>
       rejected_by cs ctx (code (heap s ! candidate)) (map snd pre) s = Some s1 \<and>
       compare cs s1 (code (heap s ! candidate)) (code (heap s ! representative g)) ctx =
         (Inr True, s2) \<longrightarrow>
       classify cs s candidate ctx =
         (Inr (g\<lparr>members := members g @ [candidate]\<rparr>),
          s2\<lparr>heap := set_group_id (heap s) candidate (sg_id g),
             groups := pre @ (key, g\<lparr>members := members g @ [candidate]\<rparr>) # post\<rparr>)) \<and>
    (\<forall>s1. rejected_by cs ctx (code (heap s ! candidate)) (map snd (groups s)) s = Some s1 \<longrightarrow>
       classify cs s candidate ctx =
         (Inr \<lparr>sg_id = ''group_'' @ show_nat (length (groups s)), representative = candidate,
               members = [candidate]\<rparr>,
          s1\<lparr>heap := set_group_id (heap s) candidate
                       (''group_'' @ show_nat (length (groups s))),
             groups := dict_set (groups s) (''group_'' @ show_nat (length (groups s)))
               \<lparr>sg_id = ''group_'' @ show_nat (length (groups s)),
                representative = candidate, members = [candidate]\<rparr>\<rparr>)) \<and>
    (numbered (groups s) \<longrightarrow>
       (\<forall>g. dict_set (groups s) (''group_'' @ show_nat (length (groups s))) g =
              groups s @ [(''group_'' @ show_nat (length (groups s)), g)])) \<and>
    (\<forall>r s'. classify cs s candidate ctx = (Inr r, s') \<longrightarrow>
       group_id (heap s' ! candidate) = Some (sg_id r) \<and> candidate \<in> set (members r) \<and>
       r \<in> snd ` set (groups s') \<and>
       (\<forall>g \<in> snd ` set (groups s'). votes g = int (length (members g))))"
proof (intro conjI allI impI)
  fix pre key g post s1 s2
  assume "groups s = pre @ (key, g) # post \<and>
       rejected_by cs ctx (code (heap s ! candidate)) (map snd pre) s = Some s1 \<and>
       compare cs s1 (code (heap s ! candidate)) (code (heap s ! representative g)) ctx =
         (Inr True, s2)"
  then show "classify cs s candidate ctx =
         (Inr (g\<lparr>members := members g @ [candidate]\<rparr>),
          s2\<lparr>heap := set_group_id (heap s) candidate (sg_id g),
             groups := pre @ (key, g\<lparr>members := members g @ [candidate]\<rparr>) # post\<rparr>)"
    by (elim conjE) (rule classify_join)
next
  fix s1
  assume "rejected_by cs ctx (code (heap s ! candidate)) (map snd (groups s)) s = Some s1"
  then show "classify cs s candidate ctx =
         (Inr \<lparr>sg_id = ''group_'' @ show_nat (length (groups s)), representative = candidate,
               members = [candidate]\<rparr>,
          s1\<lparr>heap := set_group_id (heap s) candidate
                       (''group_'' @ show_nat (length (groups s))),
             groups := dict_set (groups s) (''group_'' @ show_nat (length (groups s)))
               \<lparr>sg_id = ''group_'' @ show_nat (length (groups s)),
                representative = candidate, members = [candidate]\<rparr>\<rparr>)"
    by (rule classify_new)
next
  fix g
  assume "numbered (groups s)"
  then show "dict_set (groups s) (''group_'' @ show_nat (length (groups s))) g =
              groups s @ [(''group_'' @ show_nat (length (groups s)), g)]"
    by (intro dict_set_fresh numbered_fresh)
next
  fix r s'
  assume c: "classify cs s candidate ctx = (Inr r, s')"
  note cr = classify_result [OF assms c]
  from cr show "group_id (heap s' ! candidate) = Some (sg_id r)" by (elim conjE)
  from cr show "candidate \<in> set (members r)" by (elim conjE)
  from cr show "r \<in> snd ` set (groups s')" by (elim conjE)
  show "\<forall>g \<in> snd ` set (groups s'). votes g = int (length (members g))"
    by (simp add: votes_def)
qed

theorem classify_first_yes_or_new_group_witness:
  "2 < length (heap disc_sample) \<and> 1 < length (heap disc_sample) \<and>
   numbered (groups disc_sample) \<and>
   groups (snd (classify cmp_same disc_sample 2 ''task'')) =
     [(''group_0'', \<lparr>sg_id = ''group_0'', representative = 0, members = [0, 2]\<rparr>)] \<and>
   group_id (heap (snd (classify cmp_same disc_sample 2 ''task'')) ! 2) = Some ''group_0'' \<and>
   groups (snd (classify cmp_same disc_sample 1 ''task'')) =
     [(''group_0'', \<lparr>sg_id = ''group_0'', representative = 0, members = [0]\<rparr>),
      (''group_1'', \<lparr>sg_id = ''group_1'', representative = 1, members = [1]\<rparr>)] \<and>
   group_id (heap (snd (classify cmp_same disc_sample 1 ''task'')) ! 1) = Some ''group_1''"
proof -
  define g0 where "g0 = \<lparr>sg_id = ''group_0'', representative = 0, members = [0]\<rparr>"
  have l: "2 < length (heap disc_sample)" "1 < length (heap disc_sample)"
    by (simp_all add: disc_sample_def)
  have g: "groups disc_sample = [] @ (''group_0'', g0) # []"
    by (simp add: disc_sample_def g0_def)
  have n0: "show_nat 0 = ''0''" "show_nat 1 = ''1''" by code_simp+
  have n: "numbered (groups disc_sample)"
    by (simp add: numbered_def disc_sample_def n0)
  have len: "length (groups disc_sample) = 1" by (simp add: disc_sample_def)
  have r2: "rejected_by cmp_same ''task'' (code (heap disc_sample ! 2)) (map snd []) disc_sample =
      Some disc_sample" by simp
  have f2: "fst (compare cmp_same disc_sample (code (heap disc_sample ! 2))
      (code (heap disc_sample ! 0)) ''task'') = Inr True" by code_simp
  have rep: "representative g0 = 0" "sg_id g0 = ''group_0''" "members g0 = [0]"
    by (simp_all add: g0_def)
  obtain s2 where y2: "compare cmp_same disc_sample (code (heap disc_sample ! 2))
      (code (heap disc_sample ! representative g0)) ''task'' = (Inr True, s2)"
    using f2 unfolding rep
    by (cases "compare cmp_same disc_sample (code (heap disc_sample ! 2))
          (code (heap disc_sample ! 0)) ''task''") simp
  note t2 = classify_first_yes_or_new_group [OF l(1), of cmp_same "''task''"]
  have c2: "classify cmp_same disc_sample 2 ''task'' =
         (Inr (g0\<lparr>members := members g0 @ [2]\<rparr>),
          s2\<lparr>heap := set_group_id (heap disc_sample) 2 (sg_id g0),
             groups := [] @ (''group_0'', g0\<lparr>members := members g0 @ [2]\<rparr>) # []\<rparr>)"
    apply (rule t2 [THEN conjunct1, rule_format])
    apply (intro conjI)
      apply (rule g)
     apply (rule r2)
    apply (rule y2)
    done
  have b1: "case rejected_by cmp_same ''task'' (code (heap disc_sample ! 1))
      (map snd (groups disc_sample)) disc_sample of None \<Rightarrow> False | Some s \<Rightarrow> True"
    by code_simp
  obtain s1 where r1: "rejected_by cmp_same ''task'' (code (heap disc_sample ! 1))
      (map snd (groups disc_sample)) disc_sample = Some s1"
    using b1 by (cases "rejected_by cmp_same ''task'' (code (heap disc_sample ! 1))
      (map snd (groups disc_sample)) disc_sample") simp_all
  note t1 = classify_first_yes_or_new_group [OF l(2), of cmp_same "''task''"]
  note c1 = t1 [THEN conjunct2, THEN conjunct1, rule_format, OF r1]
  have h2: "group_id (set_group_id (heap disc_sample) 2 ''group_0'' ! 2) = Some ''group_0''"
    by (simp add: set_group_id_def disc_sample_def)
  have h1: "group_id (set_group_id (heap disc_sample) 1 ''group_1'' ! 1) = Some ''group_1''"
    by (simp add: set_group_id_def disc_sample_def)
  have d1: "dict_set (groups disc_sample) ''group_1''
        \<lparr>sg_id = ''group_1'', representative = 1, members = [1]\<rparr> =
     [(''group_0'', \<lparr>sg_id = ''group_0'', representative = 0, members = [0]\<rparr>),
      (''group_1'', \<lparr>sg_id = ''group_1'', representative = 1, members = [1]\<rparr>)]"
    by (simp add: disc_sample_def)
  have p2: "groups (snd (classify cmp_same disc_sample 2 ''task'')) =
     [(''group_0'', \<lparr>sg_id = ''group_0'', representative = 0, members = [0, 2]\<rparr>)]"
    unfolding c2 by (simp add: g0_def)
  have q2: "group_id (heap (snd (classify cmp_same disc_sample 2 ''task'')) ! 2) = Some ''group_0''"
    unfolding c2 rep using h2 by simp
  have p1: "groups (snd (classify cmp_same disc_sample 1 ''task'')) =
     [(''group_0'', \<lparr>sg_id = ''group_0'', representative = 0, members = [0]\<rparr>),
      (''group_1'', \<lparr>sg_id = ''group_1'', representative = 1, members = [1]\<rparr>)]"
    unfolding c1 len n0 using d1 by simp
  have q1: "group_id (heap (snd (classify cmp_same disc_sample 1 ''task'')) ! 1) = Some ''group_1''"
    unfolding c1 len n0 using h1 by simp
  from l n p2 q2 p1 q1 show ?thesis by (intro conjI)
qed

text \<open>
  C1. With \<open>k = 2\<close>, \<open>max_samples = 10\<close> and a comparison that always answers yes, two
  candidates form the single group \<open>group_0\<close>; \<open>get_winner\<close> declares it the winner
  (2 votes against a runner-up counted as 0), so the vote ends by the margin rule after 2
  of the 10 samples, and the result reports the margin 0, which is below \<open>k\<close>.
\<close>

theorem vote_single_group_reports_margin_zero:
  "map_option fst (vote (env_sample (gen_const ''def f(): return 42'') cmp_yes)
      (Some 2) (Some 10) 0) =
     Some (Inr \<lparr>vr_winner = 0, vr_groups = [(''group_0'', [0, 1])],
                votes_per_group = [(''group_0'', 2)], total_samples = 2,
                winning_margin = 0\<rparr>) \<and>
   map_option (\<lambda>(r, st). (is_complete st, map_option sg_id (winner st),
                            map_option sg_id (get_winner (disc st) 2)))
     (vote (env_sample (gen_const ''def f(): return 42'') cmp_yes) (Some 2) (Some 10) 0) =
     Some (True, Some ''group_0'', Some ''group_0'')"
  by code_simp

lemma check_cong:
  assumes "code c = code c'" "tokens_used c = tokens_used c'"
  shows "check cfg parse c lang = check cfg parse c' lang"
proof -
  have a: "check_format c = check_format c'" by (simp add: check_format_def assms)
  have b: "check_syntax parse c lang = check_syntax parse c' lang"
    by (simp add: check_syntax_def assms)
  have e: "too_long_reason cfg c = too_long_reason cfg c'"
    by (simp add: too_long_reason_def assms)
  have f: "check_length cfg c = check_length cfg c'" by (simp add: check_length_def assms)
  show ?thesis by (simp only: check_def a b e f)
qed

lemma vote_step_raise:
  "generator env (world (disc st)) = (Inl e, w') \<Longrightarrow>
   vote_step env k st =
     (None, st\<lparr>disc := (disc st)\<lparr>world := w'\<rparr>, gen_log := gen_log st @ [False]\<rparr>)"
  by (simp add: vote_step_def)

lemma vote_step_flagged:
  "generator env (world (disc st)) = (Inr response, w') \<Longrightarrow>
   \<not> passed (check (config env) (parser env)
        (Candidate_new (content response) (tokens_output response)) (target_language env)) \<Longrightarrow>
   vote_step env k st =
     (None, st\<lparr>disc := (disc st)\<lparr>world := w',
                 heap := heap (disc st) @
                   [(Candidate_new (content response) (tokens_output response))
                      \<lparr>is_valid := False,
                       red_flag_reason := rf_reason (check (config env) (parser env)
                         (Candidate_new (content response) (tokens_output response))
                         (target_language env))\<rparr>]\<rparr>,
               samples := samples st @ [length (heap (disc st))],
               gen_log := gen_log st @ [True],
               invalid_samples := invalid_samples st @ [length (heap (disc st))]\<rparr>)"
  by (simp add: vote_step_def Let_def)

lemma vote_step_valid:
  "generator env (world (disc st)) = (Inr response, w') \<Longrightarrow>
   passed (check (config env) (parser env)
        (Candidate_new (content response) (tokens_output response)) (target_language env)) \<Longrightarrow>
   vote_step env k st =
     (case classify (comparator env)
             ((disc st)\<lparr>world := w',
                heap := heap (disc st) @
                  [Candidate_new (content response) (tokens_output response)]\<rparr>)
             (length (heap (disc st))) (task_context env) of
        (Inl e, d') \<Rightarrow>
          (Some e, st\<lparr>disc := d', samples := samples st @ [length (heap (disc st))],
                      gen_log := gen_log st @ [True],
                      valid_samples := valid_samples st @ [length (heap (disc st))]\<rparr>)
      | (Inr g, d') \<Rightarrow>
          (None, st\<lparr>disc := d', samples := samples st @ [length (heap (disc st))],
                    gen_log := gen_log st @ [True],
                    valid_samples := valid_samples st @ [length (heap (disc st))],
                    is_complete := (if get_winner d' k = None then is_complete st else True),
                    winner := (if get_winner d' k = None then winner st
                               else get_winner d' k)\<rparr>))"
  by (auto simp: vote_step_def Let_def split: prod.splits sum.splits option.splits)

lemma vote_step_counts:
  assumes g: "generator env (world (disc st)) = (Inr r, w')"
  shows "samples (snd (vote_step env k st)) = samples st @ [length (heap (disc st))] \<and>
         gen_log (snd (vote_step env k st)) = gen_log st @ [True]"
proof (cases "passed (check (config env) (parser env)
        (Candidate_new (content r) (tokens_output r)) (target_language env))")
  case False
  from vote_step_flagged [OF g False, of k] show ?thesis by simp
next
  case True
  obtain o1 d' where c: "classify (comparator env)
             ((disc st)\<lparr>world := w',
                heap := heap (disc st) @ [Candidate_new (content r) (tokens_output r)]\<rparr>)
             (length (heap (disc st))) (task_context env) = (o1, d')"
    by (cases "classify (comparator env)
             ((disc st)\<lparr>world := w',
                heap := heap (disc st) @ [Candidate_new (content r) (tokens_output r)]\<rparr>)
             (length (heap (disc st))) (task_context env)") auto
  from vote_step_valid [OF g True, of k] c show ?thesis by (cases o1) simp_all
qed

lemma vote_loop_returns:
  assumes g: "\<forall>w. \<exists>r w'. generator env w = (Inr r, w')"
  shows "nat (m - int (length (samples st))) = n \<Longrightarrow>
         \<exists>out st' j. vote_loop env k m st = Some (out, st') \<and> j \<le> n \<and>
            gen_log st' = gen_log st @ replicate j True \<and>
            length (samples st') = length (samples st) + j"
proof (induction n arbitrary: st)
  case 0
  then have "\<not> int (length (samples st)) < m" by simp
  then have "vote_loop env k m st = Some (None, st)" by (subst vote_loop.simps) simp
  then show ?case by simp
next
  case (Suc n)
  show ?case
  proof (cases "is_complete st")
    case True
    then have "vote_loop env k m st = Some (None, st)" by (subst vote_loop.simps) simp
    then show ?thesis by simp
  next
    case False
    from Suc.prems have lt: "int (length (samples st)) < m" by simp
    from g obtain r w' where gr: "generator env (world (disc st)) = (Inr r, w')" by blast
    obtain oe st1 where s: "vote_step env k st = (oe, st1)" by (cases "vote_step env k st") auto
    from vote_step_counts [OF gr, of k] s
    have c: "samples st1 = samples st @ [length (heap (disc st))]"
            "gen_log st1 = gen_log st @ [True]" by simp_all
    show ?thesis
    proof (cases oe)
      case (Some e)
      with s lt False have "vote_loop env k m st = Some (Some e, st1)"
        by (subst vote_loop.simps) simp
      with c have "vote_loop env k m st = Some (Some e, st1) \<and> Suc 0 \<le> Suc n \<and>
            gen_log st1 = gen_log st @ replicate (Suc 0) True \<and>
            length (samples st1) = length (samples st) + Suc 0" by simp
      then show ?thesis by blast
    next
      case None
      with s lt False have l: "vote_loop env k m st = vote_loop env k m st1"
        by (subst vote_loop.simps) simp
      from Suc.prems c have "nat (m - int (length (samples st1))) = n" by simp
      from Suc.IH [OF this] obtain out st' j where
        "vote_loop env k m st1 = Some (out, st')" "j \<le> n"
        "gen_log st' = gen_log st1 @ replicate j True"
        "length (samples st') = length (samples st1) + j"
        by blast
      with l c have "vote_loop env k m st = Some (out, st') \<and> Suc j \<le> Suc n \<and>
            gen_log st' = gen_log st @ replicate (Suc j) True \<and>
            length (samples st') = length (samples st) + Suc j" by simp
      then show ?thesis by blast
    qed
  qed
qed


lemma vote_loop_raising:
  assumes a: "vote_loop env k m st = Some y"
  shows "(\<forall>w. \<exists>e w'. generator env w = (Inl e, w')) \<longrightarrow>
         int (length (samples st)) < m \<longrightarrow> \<not> is_complete st \<longrightarrow> False"
proof (rule vote_loop.raw_induct [where P = "\<lambda>env k m st y.
         (\<forall>w. \<exists>e w'. generator env w = (Inl e, w')) \<longrightarrow>
         int (length (samples st)) < m \<longrightarrow> \<not> is_complete st \<longrightarrow> False", OF _ a])
  fix f :: "'a env \<Rightarrow> int \<Rightarrow> int \<Rightarrow> 'a session \<Rightarrow> (error option \<times> 'a session) option"
  fix env k m st y
  assume IH: "\<And>env k m st y. f env k m st = Some y \<Longrightarrow>
         (\<forall>w. \<exists>e w'. generator env w = (Inl e, w')) \<longrightarrow>
         int (length (samples st)) < m \<longrightarrow> \<not> is_complete st \<longrightarrow> False"
  assume body: "(if int (length (samples st)) < m \<and> \<not> is_complete st
      then case vote_step env k st of
           (None, st') \<Rightarrow> f env k m st'
           | (Some e, st') \<Rightarrow> Some (Some e, st')
      else Some (None, st)) = Some y"
  show "(\<forall>w. \<exists>e w'. generator env w = (Inl e, w')) \<longrightarrow>
         int (length (samples st)) < m \<longrightarrow> \<not> is_complete st \<longrightarrow> False"
  proof (intro impI)
    assume g: "\<forall>w. \<exists>e w'. generator env w = (Inl e, w')"
       and lt: "int (length (samples st)) < m" and nc: "\<not> is_complete st"
    from g obtain e w' where gr: "generator env (world (disc st)) = (Inl e, w')" by blast
    note s = vote_step_raise [OF gr, of k]
    from body lt nc s
    have "f env k m
            (st\<lparr>disc := (disc st)\<lparr>world := w'\<rparr>, gen_log := gen_log st @ [False]\<rparr>) = Some y"
      by simp
    from IH [OF this] g lt nc show False by simp
  qed
qed

lemma vote_loop_never_returns:
  assumes "\<forall>w. \<exists>e w'. generator env w = (Inl e, w')"
      and "int (length (samples st)) < m" "\<not> is_complete st"
  shows "vote_loop env k m st = None"
proof (cases "vote_loop env k m st")
  case None
  then show ?thesis .
next
  case (Some y)
  from vote_loop_raising [OF Some] assms show ?thesis by blast
qed

lemma build_result_keeps:
  "gen_log (snd (build_result env st)) = gen_log st \<and>
   samples (snd (build_result env st)) = samples st"
  by (simp add: build_result_def Let_def split: option.splits list.splits)

lemma vote_returns:
  assumes g: "\<forall>w. \<exists>r w'. generator env w = (Inr r, w')"
  shows "\<exists>r st. vote env k_arg m_arg w = Some (r, st) \<and>
           list_all id (gen_log st) \<and> length (gen_log st) = length (samples st) \<and>
           int (length (gen_log st)) \<le> max 0 (py_or m_arg (cfg_max_samples (config env)))"
proof -
  define M where "M = py_or m_arg (cfg_max_samples (config env))"
  define K where "K = py_or k_arg (cfg_k (config env))"
  have "nat (M - int (length (samples (session_init w)))) = nat M"
    by (simp add: session_init_def)
  from vote_loop_returns [OF g this, of K] obtain out st' j where
    l: "vote_loop env K M (session_init w) = Some (out, st')" and j: "j \<le> nat M"
    and gl: "gen_log st' = gen_log (session_init w) @ replicate j True"
    and sl: "length (samples st') = length (samples (session_init w)) + j"
    by blast
  from gl have gl': "gen_log st' = replicate j True" by (simp add: session_init_def)
  from sl have sl': "length (samples st') = j" by (simp add: session_init_def)
  from j have b: "int j \<le> max 0 M" by simp
  have v: "vote env k_arg m_arg w =
      (case out of Some e \<Rightarrow> Some (Inl e, st') | None \<Rightarrow> Some (build_result env st'))"
    unfolding vote_def Let_def K_def [symmetric] M_def [symmetric] l by (cases out) simp_all
  show ?thesis
  proof (cases out)
    case (Some e)
    with v have "vote env k_arg m_arg w = Some (Inl e, st')" by simp
    moreover have "list_all id (gen_log st')" by (simp add: gl' list_all_iff)
    moreover have "length (gen_log st') = length (samples st')" by (simp add: gl' sl')
    moreover have "int (length (gen_log st')) \<le> max 0 M" using b by (simp add: gl')
    ultimately show ?thesis unfolding M_def by blast
  next
    case None
    obtain r st2 where br: "build_result env st' = (r, st2)"
      by (cases "build_result env st'") auto
    from build_result_keeps [of env st'] br
    have k: "gen_log st2 = gen_log st'" "samples st2 = samples st'" by simp_all
    from None v br have "vote env k_arg m_arg w = Some (r, st2)" by simp
    moreover have "list_all id (gen_log st2)" by (simp add: k gl' list_all_iff)
    moreover have "length (gen_log st2) = length (samples st2)" by (simp add: k gl' sl')
    moreover have "int (length (gen_log st2)) \<le> max 0 M" using b by (simp add: k gl')
    ultimately show ?thesis unfolding M_def by blast
  qed
qed

lemma vote_never_returns:
  assumes "\<forall>w. \<exists>e w'. generator env w = (Inl e, w')"
      and "0 < py_or m_arg (cfg_max_samples (config env))"
  shows "vote env k_arg m_arg w = None"
proof -
  have "int (length (samples (session_init w))) < py_or m_arg (cfg_max_samples (config env))"
    using assms(2) by (simp add: session_init_def)
  moreover have "\<not> is_complete (session_init w)" by (simp add: session_init_def)
  ultimately have "vote_loop env (py_or k_arg (cfg_k (config env)))
      (py_or m_arg (cfg_max_samples (config env))) (session_init w) = None"
    by (rule vote_loop_never_returns [OF assms(1)])
  then show ?thesis by (simp add: vote_def Let_def)
qed

text \<open>
  C10. When every call of the generator returns, \<open>vote\<close> returns, and it has invoked the
  generator at most \<open>max_samples\<close> times (not at all when \<open>max_samples\<close> is negative):
  every invocation is a counted sample. The bound is on counted samples only: a call of
  the generator that raises ends the turn of the loop with the samples as they were, and
  with a generator every call of which raises and a positive \<open>max_samples\<close> the loop
  never ends, so that \<open>vote\<close> does not return.
\<close>

theorem vote_terminates_within_max_samples:
  "((\<forall>w. \<exists>r w'. generator env w = (Inr r, w')) \<longrightarrow>
      (\<exists>r st. vote env k_arg m_arg w = Some (r, st) \<and>
         list_all id (gen_log st) \<and> length (gen_log st) = length (samples st) \<and>
         int (length (gen_log st)) \<le> max 0 (py_or m_arg (cfg_max_samples (config env))))) \<and>
   (\<forall>st k e w'. generator env (world (disc st)) = (Inl e, w') \<longrightarrow>
      vote_step env k st =
        (None, st\<lparr>disc := (disc st)\<lparr>world := w'\<rparr>, gen_log := gen_log st @ [False]\<rparr>)) \<and>
   ((\<forall>w. \<exists>e w'. generator env w = (Inl e, w')) \<and>
    0 < py_or m_arg (cfg_max_samples (config env)) \<longrightarrow>
      vote env k_arg m_arg w = None)"
  apply (intro conjI impI allI)
  subgoal by (rule vote_returns)
  subgoal by (rule vote_step_raise)
  subgoal premises p
    by (rule vote_never_returns [OF p [THEN conjunct1] p [THEN conjunct2]])
  done

theorem vote_terminates_within_max_samples_witness:
  "(\<exists>r st. vote (env_sample (gen_const ''def f(): return 42'') cmp_yes) (Some 2) (Some 5) 0 =
        Some (r, st) \<and>
      list_all id (gen_log st) \<and> length (gen_log st) = length (samples st) \<and>
      int (length (gen_log st)) \<le> 5) \<and>
   vote_step (env_sample (gen_first_fails ''def f(): return 42'') cmp_yes) 2 (session_init 0) =
     (None, (session_init 0)\<lparr>disc := (disc (session_init 0))\<lparr>world := Suc 0\<rparr>,
                              gen_log := [False]\<rparr>) \<and>
   vote (env_sample gen_fails cmp_yes) (Some 2) (Some 5) 0 = None"
proof -
  note a = vote_terminates_within_max_samples
             [of "env_sample (gen_const ''def f(): return 42'') cmp_yes" "Some 2" "Some 5" 0]
  note b = vote_terminates_within_max_samples
             [of "env_sample (gen_first_fails ''def f(): return 42'') cmp_yes" "Some 2" "Some 5" 0]
  note c = vote_terminates_within_max_samples
             [of "env_sample gen_fails cmp_yes" "Some 2" "Some 5" 0]
  have g1: "\<forall>w. \<exists>r w'. generator (env_sample (gen_const ''def f(): return 42'') cmp_yes) w =
      (Inr r, w')" by (simp add: env_sample_def gen_const_def)
  have m: "\<And>g. py_or (Some 5) (cfg_max_samples (config (env_sample g cmp_yes))) = 5"
    by (simp add: py_or_def)
  from a [THEN conjunct1, THEN mp, OF g1]
  have r1: "\<exists>r st. vote (env_sample (gen_const ''def f(): return 42'') cmp_yes) (Some 2) (Some 5) 0 =
        Some (r, st) \<and>
      list_all id (gen_log st) \<and> length (gen_log st) = length (samples st) \<and>
      int (length (gen_log st)) \<le> 5" by (simp add: m)
  have g2: "generator (env_sample (gen_first_fails ''def f(): return 42'') cmp_yes)
      (world (disc (session_init 0))) = (Inl (OtherException ''timeout''), Suc 0)"
    by (simp add: env_sample_def gen_first_fails_def session_init_def)
  from b [THEN conjunct2, THEN conjunct1, rule_format, OF g2, of 2]
  have r2: "vote_step (env_sample (gen_first_fails ''def f(): return 42'') cmp_yes) 2
      (session_init 0) =
     (None, (session_init 0)\<lparr>disc := (disc (session_init 0))\<lparr>world := Suc 0\<rparr>,
                              gen_log := [False]\<rparr>)" by (simp add: session_init_def)
  have g3: "(\<forall>w. \<exists>e w'. generator (env_sample gen_fails cmp_yes) w = (Inl e, w')) \<and>
      0 < py_or (Some 5) (cfg_max_samples (config (env_sample gen_fails cmp_yes)))"
    by (simp add: env_sample_def gen_fails_def py_or_def)
  from c [THEN conjunct2, THEN conjunct2, THEN mp, OF g3]
  have r3: "vote (env_sample gen_fails cmp_yes) (Some 2) (Some 5) 0 = None" .
  show ?thesis
    apply (intro conjI)
    subgoal by (rule r1)
    subgoal by (rule r2)
    subgoal by (rule r3)
    done
qed







end
